theory Spec2Isabelle
  imports Main "HOL-Library.Word" "HOL-Library.AList"
begin

section \<open>Configuration (package config)\<close>

text \<open>
  The structs of package \<open>config\<close> that the load balancer and the dispatcher read.
  A Go \<open>map[string]ModelConfig\<close> is iterated by \<open>Init\<close>; the list \<open>Models\<close> holds its
  entries in the order the iteration visits them.
\<close>

record Backend =
  Endpoint :: string
  APIKey :: string
  Deployment :: string
  APIVersion :: string

record ModelConfig =
  Backends :: "Backend list"

record RetryConfig =
  MaxAttempts :: int
  Timeout :: int

record Config =
  Models :: "(string \<times> ModelConfig) list"
  Retry :: RetryConfig

section \<open>Load balancer (loadbalancer/balancer.go)\<close>

text \<open>
  Time is a count of nanoseconds; the zero \<open>time.Time\<close> is \<open>0\<close>.  \<open>FailCount\<close> is an
  \<open>int32\<close> and \<open>current\<close> a \<open>uint64\<close>: both wrap around.

  A \<open>*BackendStatus\<close> is an address into \<open>heap\<close>, the list of all status objects
  allocated so far.  \<open>balancers\<close> is the Go map from model name to balancer, kept as
  an association list read with \<open>map_of\<close>.
\<close>

type_synonym time = int
type_synonym ref = nat

record BackendStatus =
  Backend :: Backend
  Healthy :: bool
  LastChecked :: time
  FailCount :: "32 word"

record ModelBalancer =
  backends :: "ref list"
  current :: "64 word"

record LoadBalancer =
  balancers :: "(string \<times> ModelBalancer) list"
  heap :: "BackendStatus list"

definition GetInstance :: LoadBalancer where
  "GetInstance = \<lparr>balancers = [], heap = []\<rparr>"

text \<open>\<open>&BackendStatus{Backend: backend, Healthy: true}\<close>: a fresh object at the end of the heap.\<close>

definition new_status :: "Backend \<Rightarrow> BackendStatus" where
  "new_status b = \<lparr>Backend = b, Healthy = True, LastChecked = 0, FailCount = 0\<rparr>"

fun new_statuses :: "Backend list \<Rightarrow> BackendStatus list \<Rightarrow> ref list \<times> BackendStatus list" where
  "new_statuses [] h = ([], h)"
| "new_statuses (b # bs) h =
     (let (rs, h') = new_statuses bs (h @ [new_status b]) in (length h # rs, h'))"

definition Init_model :: "string \<times> ModelConfig \<Rightarrow> LoadBalancer \<Rightarrow> LoadBalancer" where
  "Init_model e lb =
     (let (rs, h') = new_statuses (Backends (snd e)) (heap lb)
      in \<lparr>balancers = AList.update (fst e) \<lparr>backends = rs, current = 0\<rparr> (balancers lb),
          heap = h'\<rparr>)"

definition Init :: "Config \<Rightarrow> LoadBalancer \<Rightarrow> LoadBalancer" where
  "Init cfg lb = fold Init_model (Models cfg) lb"

definition HasModel :: "string \<Rightarrow> LoadBalancer \<Rightarrow> bool" where
  "HasModel model lb = (map_of (balancers lb) model \<noteq> None)"

text \<open>
  The loop of \<open>GetNext\<close> with \<open>k\<close> iterations left: every iteration adds one to the
  cursor (\<open>atomic.AddUint64\<close>) before it looks at the backend; after the last
  iteration the function returns \<open>balancer.backends[0]\<close>.
\<close>

fun GetNext_loop :: "nat \<Rightarrow> ref list \<Rightarrow> BackendStatus list \<Rightarrow> 64 word \<Rightarrow> ref \<times> 64 word" where
  "GetNext_loop 0 bs h c = (bs ! 0, c)"
| "GetNext_loop (Suc k) bs h c =
     (let c' = c + 1;
          idx = unat c' mod length bs;
          backend = bs ! idx
      in if Healthy (h ! backend) then (backend, c') else GetNext_loop k bs h c')"

definition GetNext :: "string \<Rightarrow> LoadBalancer \<Rightarrow> ref option \<times> LoadBalancer" where
  "GetNext model lb =
     (case map_of (balancers lb) model of
        None \<Rightarrow> (None, lb)
      | Some balancer \<Rightarrow>
          if length (backends balancer) = 0 then (None, lb)
          else
            (let n = length (backends balancer);
                 (backend, c') = GetNext_loop n (backends balancer) (heap lb) (current balancer)
             in (Some backend,
                 lb\<lparr>balancers := AList.update model (balancer\<lparr>current := c'\<rparr>) (balancers lb)\<rparr>)))"

text \<open>\<open>GetAllBackends\<close> only loads the cursor; \<open>nil\<close> is the empty list.\<close>

definition GetAllBackends :: "string \<Rightarrow> LoadBalancer \<Rightarrow> ref list \<times> LoadBalancer" where
  "GetAllBackends model lb =
     (case map_of (balancers lb) model of
        None \<Rightarrow> ([], lb)
      | Some balancer \<Rightarrow>
          (let n = length (backends balancer) in
           if n = 0 then ([], lb)
           else
             (let startIdx = unat (current balancer) mod n
              in (map (\<lambda>i. backends balancer ! ((startIdx + i) mod n)) [0..<n], lb))))"

definition MarkUnhealthy :: "string \<Rightarrow> ref \<Rightarrow> time \<Rightarrow> LoadBalancer \<Rightarrow> LoadBalancer" where
  "MarkUnhealthy model backend now lb =
     (case map_of (balancers lb) model of
        None \<Rightarrow> lb
      | Some balancer \<Rightarrow>
          lb\<lparr>heap := (heap lb)[backend := (heap lb ! backend)
                 \<lparr>Healthy := False, LastChecked := now,
                  FailCount := FailCount (heap lb ! backend) + 1\<rparr>]\<rparr>)"

definition MarkHealthy :: "string \<Rightarrow> ref \<Rightarrow> time \<Rightarrow> LoadBalancer \<Rightarrow> LoadBalancer" where
  "MarkHealthy model backend now lb =
     (case map_of (balancers lb) model of
        None \<Rightarrow> lb
      | Some balancer \<Rightarrow>
          lb\<lparr>heap := (heap lb)[backend := (heap lb ! backend)
                 \<lparr>Healthy := True, LastChecked := now, FailCount := 0\<rparr>]\<rparr>)"

definition Second :: int where
  "Second = 1000000000"

definition defaultRecoveryTimeout :: int where
  "defaultRecoveryTimeout = 30 * Second"

text \<open>
  One tick of the goroutine of \<open>StartHealthCheck\<close>.  \<open>clock r\<close> is what \<open>time.Now()\<close>
  returns inside \<open>time.Since\<close> when the sweep looks at the object at address \<open>r\<close>.
  \<open>time.Since\<close> saturates at the ends of the \<open>int64\<close> range of \<open>Duration\<close>, which
  does not change how the difference compares with 30 seconds.
\<close>

definition recover :: "time \<Rightarrow> BackendStatus \<Rightarrow> BackendStatus" where
  "recover now backend =
     (if \<not> Healthy backend \<and> now - LastChecked backend > defaultRecoveryTimeout
      then backend\<lparr>Healthy := True\<rparr> else backend)"

definition sweep_balancer :: "(ref \<Rightarrow> time) \<Rightarrow> ModelBalancer \<Rightarrow> BackendStatus list \<Rightarrow> BackendStatus list" where
  "sweep_balancer clock balancer h =
     fold (\<lambda>r h. h[r := recover (clock r) (h ! r)]) (backends balancer) h"

definition StartHealthCheck_tick :: "(ref \<Rightarrow> time) \<Rightarrow> LoadBalancer \<Rightarrow> LoadBalancer" where
  "StartHealthCheck_tick clock lb =
     (let balancersCopy = map snd (balancers lb)
      in lb\<lparr>heap := fold (sweep_balancer clock) balancersCopy (heap lb)\<rparr>)"

section \<open>Request transformer (handlers/proxy.go)\<close>

text \<open>
  The parsed payload is the Go \<open>map[string]interface{}\<close>: a map from field name to
  a value of any type \<open>'v\<close>.  \<open>json.Unmarshal\<close> and \<open>json.Marshal\<close> belong to the
  standard library; the transformer takes them as the parameters \<open>Unmarshal\<close> and
  \<open>Marshal\<close>, with \<open>None\<close> for a returned error.  The logger only writes log lines
  and is left out.
\<close>

type_synonym 'v payload = "string \<rightharpoonup> 'v"

definition unsupportedParams :: "string list" where
  "unsupportedParams = [''chat_template_kwargs'', ''enable_thinking'']"

text \<open>The first \<open>if\<close>: the pair is the map and the flag \<open>modified\<close>.\<close>

definition rename_max_tokens :: "'v payload \<Rightarrow> 'v payload \<times> bool" where
  "rename_max_tokens data =
     (case data ''max_tokens'' of
        None \<Rightarrow> (data, False)
      | Some maxTokens \<Rightarrow>
          (case data ''max_completion_tokens'' of
             None \<Rightarrow> ((data(''max_completion_tokens'' \<mapsto> maxTokens))(''max_tokens'' := None), True)
           | Some _ \<Rightarrow> (data, False)))"

text \<open>One iteration of the loop over \<open>unsupportedParams\<close>.\<close>

definition remove_param :: "string \<Rightarrow> 'v payload \<times> bool \<Rightarrow> 'v payload \<times> bool" where
  "remove_param param st =
     (case st of (data, modified) \<Rightarrow>
        (case data param of
           Some _ \<Rightarrow> (data(param := None), True)
         | None \<Rightarrow> (data, modified)))"

definition transform_data :: "'v payload \<Rightarrow> 'v payload \<times> bool" where
  "transform_data data = fold remove_param unsupportedParams (rename_max_tokens data)"

definition transformRequestBody ::
  "(string \<Rightarrow> 'v payload option) \<Rightarrow> ('v payload \<Rightarrow> string option) \<Rightarrow> string \<Rightarrow> string" where
  "transformRequestBody Unmarshal Marshal body =
     (case Unmarshal body of
        None \<Rightarrow> body
      | Some data \<Rightarrow>
          (case transform_data data of (data', modified) \<Rightarrow>
             if \<not> modified then body
             else (case Marshal data' of None \<Rightarrow> body | Some newBody \<Rightarrow> newBody)))"

text \<open>
  The one property of the JSON codec that the statements about the transformer's output
  use, for a given payload: if the payload parses and its rewritten map is encoded,
  decoding the encoding gives the rewritten map back.
\<close>

definition decodes_encoded ::
  "(string \<Rightarrow> 'v payload option) \<Rightarrow> ('v payload \<Rightarrow> string option) \<Rightarrow> string \<Rightarrow> bool" where
  "decodes_encoded Unmarshal Marshal body \<longleftrightarrow>
     (\<forall>data newBody.
        Unmarshal body = Some data \<and> Marshal (fst (transform_data data)) = Some newBody
        \<longrightarrow> Unmarshal newBody = Some (fst (transform_data data)))"

section \<open>Dispatcher (handlers/proxy.go)\<close>

text \<open>
  A Go \<open>error\<close> value is its message, with a flag that records whether the error was
  produced because the context of the inbound request was cancelled; the code never
  looks at the flag.
\<close>

datatype go_error = GoError (caller_cancelled: bool) (Error: string)

text \<open>Of a backend's response the handler reads the status code and the
  \<open>Content-Type\<close> header (\<open>resp.Header.Get("Content-Type")\<close>).\<close>

record response =
  StatusCode :: int
  ContentType :: string
  Body :: string

text \<open>
  What the world outside the handler does in iteration \<open>i\<close> of the retry loop:
  whether the \<open>Done\<close> channel of the request context is closed when the loop looks at
  it, what building and sending the outbound request gives, and the value of
  \<open>time.Now()\<close> inside the call that records the backend's health.
\<close>

datatype result = NewRequestErr go_error | DoErr go_error | Resp response

record attempt =
  ctx_done :: bool
  result :: result
  now :: time

text \<open>What the handler leaves behind: nothing written, a \<open>c.JSON\<close> reply, the backend
  response handed to one of the two relay functions, or the panic of calling
  \<open>Error\<close> on a nil \<open>lastErr\<close>.\<close>

datatype outcome =
    Cancelled
  | JSON int "(string \<times> string) list"
  | handleStreamResponse response
  | handleNormalResponse response
  | NilPanic

fun string_of_nat :: "nat \<Rightarrow> string" where
  "string_of_nat n =
     (if n < 10 then [char_of (48 + n)]
      else string_of_nat (n div 10) @ [char_of (48 + n mod 10)])"

declare string_of_nat.simps [simp del]

definition Sprintf_d :: "int \<Rightarrow> string" where
  "Sprintf_d i = (if i < 0 then CHR ''-'' # string_of_nat (nat (- i)) else string_of_nat (nat i))"

definition Errorf_status :: "int \<Rightarrow> go_error" where
  "Errorf_status code = GoError False (''backend returned status '' @ Sprintf_d code)"

definition TrimSuffix :: "string \<Rightarrow> string \<Rightarrow> string" where
  "TrimSuffix s suffix =
     (if length suffix \<le> length s \<and> drop (length s - length suffix) s = suffix
      then take (length s - length suffix) s else s)"

fun Contains :: "string \<Rightarrow> string \<Rightarrow> bool" where
  "Contains [] substr = (substr = [])"
| "Contains (c # s) substr = (take (length substr) (c # s) = substr \<or> Contains s substr)"

definition targetURL :: "Backend \<Rightarrow> string \<Rightarrow> string" where
  "targetURL b apiType =
     (let apiVersion = (if APIVersion b = [] then ''2024-02-01'' else APIVersion b)
      in if apiType = ''responses''
         then TrimSuffix (Endpoint b) ''/'' @ ''/openai/responses?api-version='' @ apiVersion
         else TrimSuffix (Endpoint b) ''/'' @ ''/openai/deployments/'' @ Deployment b
              @ ''/'' @ apiType @ ''?api-version='' @ apiVersion)"

text \<open>
  The retry loop of \<open>proxyWithModel\<close> from index \<open>i\<close> on.  \<open>log\<close> collects, for every
  iteration that gets past the cancellation check, the backend chosen and the target
  address (the "proxying request" log line).  A \<open>continue\<close> is the recursive call, a
  \<open>return\<close> ends the recursion; the code after the loop is the last branch.
\<close>

function proxyWithModel_loop ::
  "int \<Rightarrow> (nat \<Rightarrow> attempt) \<Rightarrow> string \<Rightarrow> string \<Rightarrow> ref list \<Rightarrow> nat \<Rightarrow> go_error option
     \<Rightarrow> (ref \<times> string) list \<Rightarrow> LoadBalancer \<Rightarrow> outcome \<times> (ref \<times> string) list \<times> LoadBalancer" where
  "proxyWithModel_loop maxAttempts env model apiType bs i lastErr log lb =
     (if int i < maxAttempts then
        (if ctx_done (env i) then (Cancelled, log, lb)
         else
           (let backend = bs ! (i mod length bs);
                log' = log @ [(backend, targetURL (Backend (heap lb ! backend)) apiType)]
            in case result (env i) of
                 NewRequestErr err \<Rightarrow>
                   proxyWithModel_loop maxAttempts env model apiType bs (Suc i) (Some err) log' lb
               | DoErr err \<Rightarrow>
                   proxyWithModel_loop maxAttempts env model apiType bs (Suc i) (Some err) log'
                     (MarkUnhealthy model backend (now (env i)) lb)
               | Resp resp \<Rightarrow>
                   if StatusCode resp \<ge> 500 then
                     proxyWithModel_loop maxAttempts env model apiType bs (Suc i)
                       (Some (Errorf_status (StatusCode resp))) log'
                       (MarkUnhealthy model backend (now (env i)) lb)
                   else
                     (let lb' = MarkHealthy model backend (now (env i)) lb
                      in if Contains (ContentType resp) ''text/event-stream''
                         then (handleStreamResponse resp, log', lb')
                         else (handleNormalResponse resp, log', lb'))))
      else
        (case lastErr of
           None \<Rightarrow> (NilPanic, log, lb)
         | Some err \<Rightarrow>
             (JSON 503 [(''error'', ''all backends failed''), (''detail'', Error err)], log, lb)))"
  by pat_completeness auto
termination
  by (relation "measure (\<lambda>(maxAttempts, env, model, apiType, bs, i, lastErr, log, lb).
        nat (maxAttempts - int i))") auto

declare proxyWithModel_loop.simps [simp del]

text \<open>
  The request body, the method and the headers go into the outbound request and so
  into what the world answers; the handler itself does nothing else with them.
\<close>

definition proxyWithModel ::
  "Config \<Rightarrow> (nat \<Rightarrow> attempt) \<Rightarrow> string \<Rightarrow> string \<Rightarrow> string \<Rightarrow> LoadBalancer
     \<Rightarrow> outcome \<times> (ref \<times> string) list \<times> LoadBalancer" where
  "proxyWithModel cfg env model body apiType lb =
     (case GetAllBackends model lb of (bs, lb0) \<Rightarrow>
        if length bs = 0 then (JSON 503 [(''error'', ''no backends available'')], [], lb0)
        else
          (let maxAttempts = (if MaxAttempts (Retry cfg) > int (length bs)
                              then int (length bs) else MaxAttempts (Retry cfg))
           in proxyWithModel_loop maxAttempts env model apiType bs 0 None [] lb0))"

subsection \<open>One iteration, seen from outside\<close>

text \<open>
  Three readings of one iteration of the loop above, used to state and prove its
  properties (lemma \<open>loop_failed\<close> and \<open>loop_answered\<close> tie them to the loop):
  the error it ends with (\<open>None\<close> when the backend answered below 500), the load
  balancer after its call of \<open>MarkUnhealthy\<close> or \<open>MarkHealthy\<close>, and the relay function
  that receives the response.
\<close>

definition attempt_err :: "attempt \<Rightarrow> go_error option" where
  "attempt_err a =
     (case result a of
        NewRequestErr err \<Rightarrow> Some err
      | DoErr err \<Rightarrow> Some err
      | Resp resp \<Rightarrow> if StatusCode resp \<ge> 500 then Some (Errorf_status (StatusCode resp)) else None)"

definition health_after :: "string \<Rightarrow> ref \<Rightarrow> attempt \<Rightarrow> LoadBalancer \<Rightarrow> LoadBalancer" where
  "health_after model backend a lb =
     (case result a of
        NewRequestErr err \<Rightarrow> lb
      | DoErr err \<Rightarrow> MarkUnhealthy model backend (now a) lb
      | Resp resp \<Rightarrow>
          if StatusCode resp \<ge> 500 then MarkUnhealthy model backend (now a) lb
          else MarkHealthy model backend (now a) lb)"

definition relay :: "response \<Rightarrow> outcome" where
  "relay resp =
     (if Contains (ContentType resp) ''text/event-stream''
      then handleStreamResponse resp else handleNormalResponse resp)"

section \<open>Concrete instances\<close>

text \<open>Small configurations and states on which the theorems below are evaluated.\<close>

definition example_backend :: "string \<Rightarrow> Backend" where
  "example_backend e = \<lparr>Endpoint = e, APIKey = ''key'', Deployment = ''gpt-4'', APIVersion = []\<rparr>"

definition example_status :: "string \<Rightarrow> bool \<Rightarrow> BackendStatus" where
  "example_status e h = \<lparr>Backend = example_backend e, Healthy = h, LastChecked = 0, FailCount = 0\<rparr>"

definition example_balancer :: ModelBalancer where
  "example_balancer = \<lparr>backends = [0, 1, 2], current = 1\<rparr>"

text \<open>Three backends \<open>A\<close>, \<open>B\<close>, \<open>C\<close> for model \<open>m\<close>, the cursor at 1; all unhealthy, or only
  \<open>C\<close> unhealthy.\<close>

definition all_unhealthy :: LoadBalancer where
  "all_unhealthy =
     \<lparr>balancers = [(''m'', example_balancer)],
      heap = [example_status ''A'' False, example_status ''B'' False, example_status ''C'' False]\<rparr>"

definition one_unhealthy :: LoadBalancer where
  "one_unhealthy =
     \<lparr>balancers = [(''m'', example_balancer)],
      heap = [example_status ''A'' True, example_status ''B'' True, example_status ''C'' False]\<rparr>"

text \<open>
  A codec that knows three request bodies: one with the legacy field and a denylisted
  field, its rewritten form, and one with both token-limit fields.  Only the
  rewritten form is ever encoded.
\<close>

definition example_body :: string where
  \<open>example_body = ''{"max_tokens":5,"enable_thinking":2}''\<close>

definition example_newBody :: string where
  \<open>example_newBody = ''{"max_completion_tokens":5}''\<close>

definition example_both :: string where
  \<open>example_both = ''{"max_tokens":5,"max_completion_tokens":7}''\<close>

definition example_Unmarshal :: "string \<Rightarrow> nat payload option" where
  "example_Unmarshal body =
     (if body = example_body then Some [''max_tokens'' \<mapsto> 5, ''enable_thinking'' \<mapsto> 2]
      else if body = example_newBody then Some [''max_completion_tokens'' \<mapsto> 5]
      else if body = example_both then Some [''max_tokens'' \<mapsto> 5, ''max_completion_tokens'' \<mapsto> 7]
      else None)"

definition example_Marshal :: "nat payload \<Rightarrow> string option" where
  "example_Marshal data =
     (if data = [''max_completion_tokens'' \<mapsto> 5] then Some example_newBody else None)"

text \<open>
  A configuration with three backends for model \<open>m\<close> and three attempts, one whose
  model has no backend at all, and three courses an inbound request can take: the
  first backend answers 500 and the second 200; every backend answers with a status
  from 500 on; the caller cancels while the first outbound call is in flight, so
  that \<open>client.Do\<close> returns the context's error and the next check finds the context
  done.
\<close>

definition example_config :: Config where
  "example_config =
     \<lparr>Models = [(''m'', \<lparr>Backends = [example_backend ''https://a.example'',
                                        example_backend ''https://b.example'',
                                        example_backend ''https://c.example/'']\<rparr>)],
      Retry = \<lparr>MaxAttempts = 3, Timeout = 30 * Second\<rparr>\<rparr>"

definition status_response :: "int \<Rightarrow> response" where
  "status_response code = \<lparr>StatusCode = code, ContentType = ''application/json'', Body = ''{}''\<rparr>"

definition fail_then_answer :: "nat \<Rightarrow> attempt" where
  "fail_then_answer i =
     \<lparr>ctx_done = False,
      result = Resp (status_response (if i = 0 then 500 else 200)),
      now = 7 * Second\<rparr>"

definition always_failing :: "nat \<Rightarrow> attempt" where
  "always_failing i =
     \<lparr>ctx_done = False, result = Resp (status_response (500 + int i)), now = 7 * Second\<rparr>"

definition cancelled_in_flight :: "nat \<Rightarrow> attempt" where
  "cancelled_in_flight i =
     \<lparr>ctx_done = (0 < i), result = DoErr (GoError True ''context canceled''), now = 7 * Second\<rparr>"


text \<open>The same three backends with \<open>max_attempts: 0\<close> in the configuration file.\<close>

definition zero_attempts_config :: Config where
  "zero_attempts_config = example_config\<lparr>Retry := \<lparr>MaxAttempts = 0, Timeout = 30 * Second\<rparr>\<rparr>"

definition empty_pool_config :: Config where
  "empty_pool_config =
     \<lparr>Models = [(''m'', \<lparr>Backends = []\<rparr>)], Retry = \<lparr>MaxAttempts = 3, Timeout = 30 * Second\<rparr>\<rparr>"

text \<open>
  A state for the recovery sweep, looked at when the clock shows 40 s: \<open>A\<close> failed
  twice, last at 5 s; \<open>B\<close> failed once, at 10 s, exactly 30 s before; \<open>C\<close> is healthy.
\<close>

definition after_failures :: LoadBalancer where
  "after_failures =
     \<lparr>balancers = [(''m'', example_balancer)],
      heap = [(example_status ''A'' False)\<lparr>LastChecked := 5 * Second, FailCount := 2\<rparr>,
              (example_status ''B'' False)\<lparr>LastChecked := 10 * Second, FailCount := 1\<rparr>,
              example_status ''C'' True]\<rparr>"

definition sweep_clock :: "ref \<Rightarrow> time" where
  "sweep_clock r = 40 * Second"

section \<open>Selection: \<open>GetNext\<close> and \<open>GetAllBackends\<close>\<close>

text \<open>
  What the loop of \<open>GetNext\<close> computes from cursor \<open>c\<close> with \<open>k\<close> iterations to go:
  either it stops at the first probe \<open>j\<close> that finds a healthy backend, after adding
  \<open>j\<close> to the cursor, or all \<open>k\<close> probes find unhealthy backends, the cursor has moved
  by \<open>k\<close> and the result is the backend at index 0.
\<close>

lemma GetNext_loop_probe:
  "GetNext_loop k bs h c = (r, c') \<Longrightarrow>
     (\<exists>j. 1 \<le> j \<and> j \<le> k \<and> c' = c + of_nat j
          \<and> (\<forall>i. 1 \<le> i \<and> i < j \<longrightarrow> \<not> Healthy (h ! (bs ! (unat (c + of_nat i) mod length bs))))
          \<and> Healthy (h ! (bs ! (unat (c + of_nat j) mod length bs)))
          \<and> r = bs ! (unat (c + of_nat j) mod length bs))
     \<or> (c' = c + of_nat k
          \<and> (\<forall>i. 1 \<le> i \<and> i \<le> k \<longrightarrow> \<not> Healthy (h ! (bs ! (unat (c + of_nat i) mod length bs))))
          \<and> r = bs ! 0)"
proof (induction k arbitrary: c)
  case 0
  then show ?case by simp
next
  case (Suc k)
  let ?P = "\<lambda>i. Healthy (h ! (bs ! (unat (c + of_nat i) mod length bs)))"
  show ?case
  proof (cases "?P 1")
    case True
    with Suc.prems have "r = bs ! (unat (c + 1) mod length bs)" "c' = c + 1"
      by (auto simp add: Let_def)
    with True show ?thesis
      by (intro disjI1 exI[of _ 1]) simp
  next
    case False
    with Suc.prems have rec: "GetNext_loop k bs h (c + 1) = (r, c')"
      by (simp add: Let_def)
    have shift: "c + 1 + of_nat i = c + of_nat (Suc i)" for i
      by simp
    from Suc.IH[OF rec] show ?thesis
    proof (elim disjE exE conjE)
      fix j
      assume j: "1 \<le> j" "j \<le> k" "c' = c + 1 + of_nat j"
        and un: "\<forall>i. 1 \<le> i \<and> i < j \<longrightarrow> \<not> Healthy (h ! (bs ! (unat (c + 1 + of_nat i) mod length bs)))"
        and he: "Healthy (h ! (bs ! (unat (c + 1 + of_nat j) mod length bs)))"
        and r: "r = bs ! (unat (c + 1 + of_nat j) mod length bs)"
      have "\<forall>i. 1 \<le> i \<and> i < Suc j \<longrightarrow> \<not> ?P i"
      proof (intro allI impI)
        fix i assume i: "1 \<le> i \<and> i < Suc j"
        show "\<not> ?P i"
        proof (cases "i = 1")
          case True with False show ?thesis by simp
        next
          case False
          with i obtain i' where "i = Suc i'" "1 \<le> i'" "i' < j"
            by (cases i) auto
          with un show ?thesis unfolding shift by blast
        qed
      qed
      with j he r show ?thesis
        unfolding shift by (intro disjI1 exI[of _ "Suc j"]) simp
    next
      assume c': "c' = c + 1 + of_nat k"
        and un: "\<forall>i. 1 \<le> i \<and> i \<le> k \<longrightarrow> \<not> Healthy (h ! (bs ! (unat (c + 1 + of_nat i) mod length bs)))"
        and r: "r = bs ! 0"
      have "\<forall>i. 1 \<le> i \<and> i \<le> Suc k \<longrightarrow> \<not> ?P i"
      proof (intro allI impI)
        fix i assume i: "1 \<le> i \<and> i \<le> Suc k"
        show "\<not> ?P i"
        proof (cases "i = 1")
          case True with False show ?thesis by simp
        next
          case False
          with i obtain i' where "i = Suc i'" "1 \<le> i'" "i' \<le> k"
            by (cases i) auto
          with un show ?thesis unfolding shift by blast
        qed
      qed
      with c' r show ?thesis unfolding shift by (intro disjI2) simp
    qed
  qed
qed

lemma GetNext_unfold:
  assumes "map_of (balancers lb) model = Some balancer" and "backends balancer \<noteq> []"
    and "GetNext_loop (length (backends balancer)) (backends balancer) (heap lb) (current balancer)
           = (r, c')"
  shows "GetNext model lb =
           (Some r, lb\<lparr>balancers := AList.update model (balancer\<lparr>current := c'\<rparr>) (balancers lb)\<rparr>)"
  using assms by (simp add: GetNext_def Let_def)

text \<open>
  C1, as the code has it.  On a model with a non-empty pool of \<open>n\<close> backends and the
  cursor at \<open>c\<close>, \<open>GetNext\<close> probes the positions \<open>(c + 1) mod n\<close>, \<open>(c + 2) mod n\<close>, ...
  and adds one to the cursor for every probe.  It stops at the first probe \<open>k\<close> that
  finds a healthy backend and returns that backend, the cursor having advanced by
  \<open>k\<close>; when all \<open>n\<close> probes find unhealthy backends the cursor has advanced by \<open>n\<close>
  and the result is the backend at index 0 of the pool.
\<close>

theorem GetNext_probes_until_healthy:
  assumes "map_of (balancers lb) model = Some balancer" and "backends balancer \<noteq> []"
  shows "\<exists>k. 1 \<le> k \<and> k \<le> length (backends balancer)
      \<and> snd (GetNext model lb) =
          lb\<lparr>balancers := AList.update model
               (balancer\<lparr>current := current balancer + of_nat k\<rparr>) (balancers lb)\<rparr>
      \<and> (\<forall>i. 1 \<le> i \<and> i < k \<longrightarrow>
            \<not> Healthy (heap lb ! (backends balancer !
                 (unat (current balancer + of_nat i) mod length (backends balancer)))))
      \<and> (if Healthy (heap lb ! (backends balancer !
                 (unat (current balancer + of_nat k) mod length (backends balancer))))
         then fst (GetNext model lb) =
                Some (backends balancer !
                  (unat (current balancer + of_nat k) mod length (backends balancer)))
         else k = length (backends balancer)
              \<and> fst (GetNext model lb) = Some (backends balancer ! 0))"
proof -
  let ?bs = "backends balancer" and ?c = "current balancer"
  obtain r c' where loop: "GetNext_loop (length ?bs) ?bs (heap lb) ?c = (r, c')"
    by (cases "GetNext_loop (length ?bs) ?bs (heap lb) ?c") blast
  note res = GetNext_unfold[OF assms loop]
  from assms(2) have pos: "1 \<le> length ?bs"
    by (cases ?bs) simp_all
  from GetNext_loop_probe[OF loop] show ?thesis
  proof (elim disjE exE conjE)
    fix j
    assume "1 \<le> j" "j \<le> length ?bs" "c' = ?c + of_nat j"
      "\<forall>i. 1 \<le> i \<and> i < j \<longrightarrow> \<not> Healthy (heap lb ! (?bs ! (unat (?c + of_nat i) mod length ?bs)))"
      "Healthy (heap lb ! (?bs ! (unat (?c + of_nat j) mod length ?bs)))"
      "r = ?bs ! (unat (?c + of_nat j) mod length ?bs)"
    then show ?thesis
      by (intro exI[of _ j]) (simp add: res)
  next
    assume "c' = ?c + of_nat (length ?bs)"
      "\<forall>i. 1 \<le> i \<and> i \<le> length ?bs \<longrightarrow>
             \<not> Healthy (heap lb ! (?bs ! (unat (?c + of_nat i) mod length ?bs)))"
      "r = ?bs ! 0"
    with pos show ?thesis
      by (intro exI[of _ "length ?bs"]) (simp add: res)
  qed
qed

theorem GetNext_probes_until_healthy_witness:
  "map_of (balancers one_unhealthy) ''m'' = Some example_balancer
   \<and> backends example_balancer \<noteq> []
   \<and> fst (GetNext ''m'' one_unhealthy) = Some 0
   \<and> map_of (balancers (snd (GetNext ''m'' one_unhealthy))) ''m''
       = Some (example_balancer\<lparr>current := current example_balancer + 2\<rparr>)
   \<and> (\<exists>k. 1 \<le> k \<and> k \<le> length (backends example_balancer)
      \<and> snd (GetNext ''m'' one_unhealthy) =
          one_unhealthy\<lparr>balancers := AList.update ''m''
               (example_balancer\<lparr>current := current example_balancer + of_nat k\<rparr>)
               (balancers one_unhealthy)\<rparr>
      \<and> (\<forall>i. 1 \<le> i \<and> i < k \<longrightarrow>
            \<not> Healthy (heap one_unhealthy ! (backends example_balancer !
                 (unat (current example_balancer + of_nat i) mod length (backends example_balancer)))))
      \<and> (if Healthy (heap one_unhealthy ! (backends example_balancer !
                 (unat (current example_balancer + of_nat k) mod length (backends example_balancer))))
         then fst (GetNext ''m'' one_unhealthy) =
                Some (backends example_balancer !
                  (unat (current example_balancer + of_nat k) mod length (backends example_balancer)))
         else k = length (backends example_balancer)
              \<and> fst (GetNext ''m'' one_unhealthy) = Some (backends example_balancer ! 0)))"
proof -
  have h1: "map_of (balancers one_unhealthy) ''m'' = Some example_balancer"
    by (simp add: one_unhealthy_def)
  have h2: "backends example_balancer \<noteq> []"
    by (simp add: example_balancer_def)
  have v: "fst (GetNext ''m'' one_unhealthy) = Some 0"
    "map_of (balancers (snd (GetNext ''m'' one_unhealthy))) ''m''
       = Some (example_balancer\<lparr>current := current example_balancer + 2\<rparr>)"
    by code_simp+
  from GetNext_probes_until_healthy[OF h1 h2] h1 h2 v show ?thesis
    by blast
qed

text \<open>
  C1 as stated fails.  With the three backends of model \<open>m\<close> all unhealthy and the
  cursor at 1, the position of the cursor before the call is \<open>1 mod 3 = 1\<close>, the
  backend \<open>B\<close> at address 1; \<open>GetNext\<close> returns the backend \<open>A\<close> at address 0 and
  leaves the cursor at 4, three steps on instead of one.
\<close>

theorem GetNext_counterexample:
  "backends example_balancer ! (unat (current example_balancer) mod length (backends example_balancer)) = 1
   \<and> fst (GetNext ''m'' all_unhealthy) = Some 0
   \<and> map_of (balancers (snd (GetNext ''m'' all_unhealthy))) ''m''
       = Some (example_balancer\<lparr>current := current example_balancer + 3\<rparr>)
   \<and> current example_balancer + 3 \<noteq> current example_balancer + 1"
  by code_simp

lemma GetAllBackends_rotate:
  assumes "map_of (balancers lb) model = Some balancer" and "backends balancer \<noteq> []"
  shows "GetAllBackends model lb =
     (rotate (unat (current balancer) mod length (backends balancer)) (backends balancer), lb)"
proof -
  let ?bs = "backends balancer"
  let ?n = "length ?bs"
  let ?s = "unat (current balancer) mod ?n"
  have "map (\<lambda>i. ?bs ! ((?s + i) mod ?n)) [0..<?n] = rotate ?s ?bs"
    by (rule nth_equalityI) (simp_all add: nth_rotate)
  with assms show ?thesis
    by (simp add: GetAllBackends_def Let_def)
qed

text \<open>
  C5.  On a model with a non-empty pool, \<open>GetAllBackends\<close> returns the pool rotated to
  start at the cursor position \<open>c mod n\<close>: all \<open>n\<close> entries, entry \<open>i\<close> being the
  backend at position \<open>(c + i) mod n\<close>, whatever the health flags are; the load
  balancer, and with it the cursor, is left as it was.
\<close>

theorem GetAllBackends_whole_pool:
  assumes "map_of (balancers lb) model = Some balancer" and "backends balancer \<noteq> []"
  shows "GetAllBackends model lb =
           (rotate (unat (current balancer) mod length (backends balancer)) (backends balancer), lb)
     \<and> length (fst (GetAllBackends model lb)) = length (backends balancer)
     \<and> (\<forall>i < length (backends balancer).
           fst (GetAllBackends model lb) ! i =
             backends balancer ! ((unat (current balancer) + i) mod length (backends balancer)))"
proof -
  let ?bs = "backends balancer"
  let ?n = "length ?bs"
  let ?s = "unat (current balancer) mod ?n"
  have "map (\<lambda>i. ?bs ! ((?s + i) mod ?n)) [0..<?n] = rotate ?s ?bs"
    by (rule nth_equalityI) (simp_all add: nth_rotate)
  with assms have eq: "GetAllBackends model lb = (rotate ?s ?bs, lb)"
    by (simp add: GetAllBackends_def Let_def)
  have "rotate ?s ?bs ! i = ?bs ! ((unat (current balancer) + i) mod ?n)" if "i < ?n" for i
    using that by (simp add: nth_rotate mod_add_left_eq)
  with eq show ?thesis by simp
qed

theorem GetAllBackends_whole_pool_witness:
  "map_of (balancers all_unhealthy) ''m'' = Some example_balancer
   \<and> backends example_balancer \<noteq> []
   \<and> fst (GetAllBackends ''m'' all_unhealthy) = [1, 2, 0]
   \<and> GetAllBackends ''m'' all_unhealthy =
       (rotate (unat (current example_balancer) mod length (backends example_balancer))
          (backends example_balancer), all_unhealthy)
   \<and> length (fst (GetAllBackends ''m'' all_unhealthy)) = length (backends example_balancer)
   \<and> fst (GetAllBackends ''m'' all_unhealthy) ! 2 =
         backends example_balancer !
           ((unat (current example_balancer) + 2) mod length (backends example_balancer))"
proof -
  have h1: "map_of (balancers all_unhealthy) ''m'' = Some example_balancer"
    by (simp add: all_unhealthy_def)
  have h2: "backends example_balancer \<noteq> []"
    by (simp add: example_balancer_def)
  have v: "fst (GetAllBackends ''m'' all_unhealthy) = [1, 2, 0]"
    by code_simp
  have h3: "2 < length (backends example_balancer)"
    by (simp add: example_balancer_def)
  from GetAllBackends_whole_pool[OF h1 h2] h1 h2 h3 v show ?thesis
    by blast
qed

section \<open>Request transformer\<close>

text \<open>The loop over the denylist removes exactly the listed fields and raises the flag
  when one of them was present.\<close>

lemma fold_remove_param:
  "fold remove_param ps (d, m) =
     ((\<lambda>k. if k \<in> set ps then None else d k), m \<or> (\<exists>p \<in> set ps. d p \<noteq> None))"
proof (induction ps arbitrary: d m)
  case Nil
  show ?case by simp
next
  case (Cons p ps)
  show ?case
  proof (cases "d p")
    case None
    then have "remove_param p (d, m) = (d, m)"
      by (simp add: remove_param_def)
    with None show ?thesis
      by (auto simp: Cons.IH fun_eq_iff)
  next
    case (Some v)
    then have "remove_param p (d, m) = (d(p := None), True)"
      by (simp add: remove_param_def)
    with Some show ?thesis
      by (auto simp: Cons.IH fun_eq_iff)
  qed
qed

lemma rename_max_tokens_cases:
  "rename_max_tokens data =
     (if data ''max_tokens'' \<noteq> None \<and> data ''max_completion_tokens'' = None
      then ((data(''max_completion_tokens'' := data ''max_tokens''))(''max_tokens'' := None), True)
      else (data, False))"
  by (auto simp: rename_max_tokens_def split: option.splits)

lemma rename_max_tokens_other:
  "k \<noteq> ''max_tokens'' \<Longrightarrow> k \<noteq> ''max_completion_tokens'' \<Longrightarrow>
     fst (rename_max_tokens data) k = data k"
  by (simp add: rename_max_tokens_cases)

lemma unsupported_not_token_field:
  "p \<in> set unsupportedParams \<Longrightarrow> p \<noteq> ''max_tokens'' \<and> p \<noteq> ''max_completion_tokens''"
  by (auto simp: unsupportedParams_def)

lemma transform_data_fst:
  "fst (transform_data data) k =
     (if k \<in> set unsupportedParams then None else fst (rename_max_tokens data) k)"
  by (cases "rename_max_tokens data") (simp add: transform_data_def fold_remove_param)

lemma transform_data_snd:
  "snd (transform_data data) \<longleftrightarrow>
     (data ''max_tokens'' \<noteq> None \<and> data ''max_completion_tokens'' = None)
     \<or> (\<exists>p \<in> set unsupportedParams. data p \<noteq> None)"
proof -
  obtain d m where r: "rename_max_tokens data = (d, m)"
    by (cases "rename_max_tokens data")
  have m: "m \<longleftrightarrow> data ''max_tokens'' \<noteq> None \<and> data ''max_completion_tokens'' = None"
    using r by (auto simp: rename_max_tokens_cases split: if_splits)
  have "d p = data p" if "p \<in> set unsupportedParams" for p
    using rename_max_tokens_other[of p data] unsupported_not_token_field[OF that] r by simp
  then have "(\<exists>p \<in> set unsupportedParams. d p \<noteq> None) \<longleftrightarrow> (\<exists>p \<in> set unsupportedParams. data p \<noteq> None)"
    by simp
  with m show ?thesis
    by (simp add: transform_data_def r fold_remove_param)
qed

lemma transform_data_unmodified:
  assumes "\<not> snd (transform_data data)"
  shows "fst (transform_data data) = data"
proof (rule ext)
  fix k
  from assms have a: "data ''max_tokens'' = None \<or> data ''max_completion_tokens'' \<noteq> None"
    and b: "\<forall>p \<in> set unsupportedParams. data p = None"
    by (auto simp: transform_data_snd)
  from a have "rename_max_tokens data = (data, False)"
    by (auto simp: rename_max_tokens_cases)
  with b show "fst (transform_data data) k = data k"
    by (simp add: transform_data_fst)
qed

lemma transform_data_again:
  "\<not> snd (transform_data (fst (transform_data data)))"
proof -
  let ?d = "fst (transform_data data)"
  have "?d ''max_tokens'' = None \<or> ?d ''max_completion_tokens'' \<noteq> None"
    by (auto simp: transform_data_fst rename_max_tokens_cases unsupportedParams_def)
  moreover have "\<forall>p \<in> set unsupportedParams. ?d p = None"
    by (simp add: transform_data_fst)
  ultimately show ?thesis
    by (simp add: transform_data_snd)
qed

lemma transformRequestBody_cases:
  "transformRequestBody Unmarshal Marshal body =
     (case Unmarshal body of
        None \<Rightarrow> body
      | Some data \<Rightarrow>
          if \<not> snd (transform_data data) then body
          else (case Marshal (fst (transform_data data)) of None \<Rightarrow> body | Some newBody \<Rightarrow> newBody))"
  by (simp add: transformRequestBody_def split: option.splits prod.splits)

lemma example_transformed:
  "transform_data [''max_tokens'' \<mapsto> 5::nat, ''enable_thinking'' \<mapsto> 2]
     = ([''max_completion_tokens'' \<mapsto> 5], True)"
  by (auto simp: transform_data_def unsupportedParams_def rename_max_tokens_def
        remove_param_def fun_eq_iff)

lemma example_codec: "decodes_encoded example_Unmarshal example_Marshal body"
proof -
  have "example_Unmarshal out = Some d" if "example_Marshal d = Some out" for d out
    using that
    by (auto simp: example_Marshal_def example_Unmarshal_def example_body_def
          example_newBody_def split: if_splits)
  then show ?thesis
    by (simp add: decodes_encoded_def)
qed

lemma example_bodies_differ:
  "example_body \<noteq> example_newBody" "example_both \<noteq> example_body" "example_both \<noteq> example_newBody"
  by (simp_all add: example_body_def example_newBody_def example_both_def)

text \<open>
  C8.  Let the payload parse to the map \<open>data\<close>, and, when a rewrite is necessary, let
  \<open>Marshal\<close> succeed on the rewritten map and its output decode to that map again.  Then
  the transformer's output decodes to a map \<open>data'\<close> in which: if \<open>max_tokens\<close> was present
  and \<open>max_completion_tokens\<close> absent, \<open>max_completion_tokens\<close> holds the value
  \<open>max_tokens\<close> had and \<open>max_tokens\<close> is gone, and otherwise both fields are as they
  were; no field of the denylist is present; and every other field is as it was.
\<close>

theorem transformRequestBody_renames_and_strips:
  assumes parse: "Unmarshal body = Some data"
    and enc: "snd (transform_data data) \<longrightarrow> Marshal (fst (transform_data data)) \<noteq> None"
    and dec: "decodes_encoded Unmarshal Marshal body"
  shows "\<exists>data'. Unmarshal (transformRequestBody Unmarshal Marshal body) = Some data'
     \<and> (if data ''max_tokens'' \<noteq> None \<and> data ''max_completion_tokens'' = None
        then data' ''max_completion_tokens'' = data ''max_tokens'' \<and> data' ''max_tokens'' = None
        else data' ''max_completion_tokens'' = data ''max_completion_tokens''
             \<and> data' ''max_tokens'' = data ''max_tokens'')
     \<and> (\<forall>param \<in> set unsupportedParams. data' param = None)
     \<and> (\<forall>k. k \<notin> set unsupportedParams \<and> k \<noteq> ''max_tokens'' \<and> k \<noteq> ''max_completion_tokens''
            \<longrightarrow> data' k = data k)"
proof -
  let ?d = "fst (transform_data data)"
  have out: "Unmarshal (transformRequestBody Unmarshal Marshal body) = Some ?d"
  proof (cases "snd (transform_data data)")
    case True
    with enc obtain newBody where newBody: "Marshal ?d = Some newBody"
      by blast
    with dec parse have "Unmarshal newBody = Some ?d"
      by (simp add: decodes_encoded_def)
    with newBody True parse show ?thesis
      by (simp add: transformRequestBody_cases)
  next
    case False
    with parse show ?thesis
      by (simp add: transformRequestBody_cases transform_data_unmodified)
  qed
  have tok: "''max_tokens'' \<notin> set unsupportedParams" "''max_completion_tokens'' \<notin> set unsupportedParams"
    by (simp_all add: unsupportedParams_def)
  have a: "if data ''max_tokens'' \<noteq> None \<and> data ''max_completion_tokens'' = None
        then ?d ''max_completion_tokens'' = data ''max_tokens'' \<and> ?d ''max_tokens'' = None
        else ?d ''max_completion_tokens'' = data ''max_completion_tokens''
             \<and> ?d ''max_tokens'' = data ''max_tokens''"
    using tok by (simp add: transform_data_fst rename_max_tokens_cases)
  have b: "\<forall>param \<in> set unsupportedParams. ?d param = None"
    by (simp add: transform_data_fst)
  have c: "\<forall>k. k \<notin> set unsupportedParams \<and> k \<noteq> ''max_tokens'' \<and> k \<noteq> ''max_completion_tokens''
            \<longrightarrow> ?d k = data k"
    by (simp add: transform_data_fst rename_max_tokens_other)
  from out a b c show ?thesis by blast
qed

theorem transformRequestBody_renames_and_strips_witness:
  "example_Unmarshal example_body = Some [''max_tokens'' \<mapsto> 5, ''enable_thinking'' \<mapsto> 2]
   \<and> snd (transform_data [''max_tokens'' \<mapsto> 5::nat, ''enable_thinking'' \<mapsto> 2])
   \<and> example_Marshal (fst (transform_data [''max_tokens'' \<mapsto> 5, ''enable_thinking'' \<mapsto> 2]))
       = Some example_newBody
   \<and> decodes_encoded example_Unmarshal example_Marshal example_body
   \<and> transformRequestBody example_Unmarshal example_Marshal example_body = example_newBody
   \<and> (\<exists>data'. example_Unmarshal (transformRequestBody example_Unmarshal example_Marshal example_body)
                 = Some data'
         \<and> data' ''max_completion_tokens'' = Some 5 \<and> data' ''max_tokens'' = None
         \<and> data' ''enable_thinking'' = None)"
proof -
  let ?data = "[''max_tokens'' \<mapsto> 5::nat, ''enable_thinking'' \<mapsto> 2]"
  have h1: "example_Unmarshal example_body = Some ?data"
    by (simp add: example_Unmarshal_def)
  have m: "snd (transform_data ?data)"
    by (simp add: example_transformed)
  have enc: "example_Marshal (fst (transform_data ?data)) = Some example_newBody"
    by (simp add: example_transformed example_Marshal_def)
  then have h2: "snd (transform_data ?data) \<longrightarrow> example_Marshal (fst (transform_data ?data)) \<noteq> None"
    by simp
  note h3 = example_codec[of example_body]
  have out: "transformRequestBody example_Unmarshal example_Marshal example_body = example_newBody"
    using h1 m enc by (simp add: transformRequestBody_cases)
  have e: "''enable_thinking'' \<in> set unsupportedParams"
    by (simp add: unsupportedParams_def)
  from transformRequestBody_renames_and_strips[where Unmarshal = example_Unmarshal
      and Marshal = example_Marshal and body = example_body and data = ?data, OF h1 h2 h3]
  obtain data' where
    "example_Unmarshal (transformRequestBody example_Unmarshal example_Marshal example_body) = Some data'"
    "data' ''max_completion_tokens'' = Some 5 \<and> data' ''max_tokens'' = None"
    "\<forall>param \<in> set unsupportedParams. data' param = None"
    by auto
  with e have "\<exists>data'. example_Unmarshal (transformRequestBody example_Unmarshal example_Marshal example_body)
                 = Some data'
         \<and> data' ''max_completion_tokens'' = Some 5 \<and> data' ''max_tokens'' = None
         \<and> data' ''enable_thinking'' = None"
    by blast
  with h1 m enc h3 out show ?thesis by blast
qed

text \<open>
  C9.  For every payload whose rewritten form, once encoded, decodes to itself again,
  applying the transformer to its own output gives that output again.  A payload that
  does not parse is returned as it is, and so is a payload that needs no rewrite: one
  that parses to a map without \<open>max_tokens\<close>, or with \<open>max_completion_tokens\<close>, and
  without any field of the denylist.
\<close>

theorem transformRequestBody_idempotent:
  assumes roundtrip: "decodes_encoded Unmarshal Marshal body"
  shows "transformRequestBody Unmarshal Marshal (transformRequestBody Unmarshal Marshal body)
           = transformRequestBody Unmarshal Marshal body
     \<and> (Unmarshal body = None \<longrightarrow> transformRequestBody Unmarshal Marshal body = body)
     \<and> (\<forall>data. Unmarshal body = Some data
            \<and> (data ''max_tokens'' = None \<or> data ''max_completion_tokens'' \<noteq> None)
            \<and> (\<forall>param \<in> set unsupportedParams. data param = None)
          \<longrightarrow> transformRequestBody Unmarshal Marshal body = body)"
proof (intro conjI allI impI)
  show "transformRequestBody Unmarshal Marshal (transformRequestBody Unmarshal Marshal body)
           = transformRequestBody Unmarshal Marshal body"
  proof (cases "Unmarshal body")
    case None
    then show ?thesis by (simp add: transformRequestBody_cases)
  next
    case (Some data)
    show ?thesis
    proof (cases "snd (transform_data data)")
      case False
      with Some show ?thesis by (simp add: transformRequestBody_cases)
    next
      case True
      show ?thesis
      proof (cases "Marshal (fst (transform_data data))")
        case None
        with Some True show ?thesis by (simp add: transformRequestBody_cases)
      next
        case (Some newBody)
        with \<open>Unmarshal body = Some data\<close> True
        have 1: "transformRequestBody Unmarshal Marshal body = newBody"
          by (simp add: transformRequestBody_cases)
        from roundtrip Some \<open>Unmarshal body = Some data\<close>
        have "Unmarshal newBody = Some (fst (transform_data data))"
          by (simp add: decodes_encoded_def)
        then have "transformRequestBody Unmarshal Marshal newBody = newBody"
          by (simp add: transformRequestBody_cases transform_data_again)
        with 1 show ?thesis by simp
      qed
    qed
  qed
next
  assume "Unmarshal body = None"
  then show "transformRequestBody Unmarshal Marshal body = body"
    by (simp add: transformRequestBody_cases)
next
  fix data
  assume "Unmarshal body = Some data
            \<and> (data ''max_tokens'' = None \<or> data ''max_completion_tokens'' \<noteq> None)
            \<and> (\<forall>param \<in> set unsupportedParams. data param = None)"
  then show "transformRequestBody Unmarshal Marshal body = body"
    by (auto simp: transformRequestBody_cases transform_data_snd)
qed

theorem transformRequestBody_idempotent_witness:
  "decodes_encoded example_Unmarshal example_Marshal example_body
   \<and> decodes_encoded example_Unmarshal example_Marshal example_newBody
   \<and> transformRequestBody example_Unmarshal example_Marshal example_body = example_newBody
   \<and> transformRequestBody example_Unmarshal example_Marshal
        (transformRequestBody example_Unmarshal example_Marshal example_body)
      = transformRequestBody example_Unmarshal example_Marshal example_body
   \<and> example_Unmarshal example_newBody = Some [''max_completion_tokens'' \<mapsto> 5]
   \<and> transformRequestBody example_Unmarshal example_Marshal example_newBody = example_newBody"
proof -
  let ?data = "[''max_tokens'' \<mapsto> 5::nat, ''enable_thinking'' \<mapsto> 2]"
  let ?new = "[''max_completion_tokens'' \<mapsto> 5::nat]"
  note idem = transformRequestBody_idempotent[OF example_codec]
  note c1 = example_codec[of example_body] and c2 = example_codec[of example_newBody]
  have "example_Unmarshal example_body = Some ?data"
    by (simp add: example_Unmarshal_def)
  then have out: "transformRequestBody example_Unmarshal example_Marshal example_body = example_newBody"
    by (simp add: transformRequestBody_cases example_transformed example_Marshal_def)
  have new: "example_Unmarshal example_newBody = Some ?new"
    using example_bodies_differ by (simp add: example_Unmarshal_def)
  have "?new ''max_tokens'' = None \<or> ?new ''max_completion_tokens'' \<noteq> None"
    by simp
  moreover have "\<forall>param \<in> set unsupportedParams. ?new param = None"
    by (simp add: unsupportedParams_def)
  ultimately have same: "transformRequestBody example_Unmarshal example_Marshal example_newBody = example_newBody"
    using idem[of example_newBody] new by blast
  from idem[of example_body] c1 c2 out new same show ?thesis
    by blast
qed

text \<open>
  C10.  A payload that parses to a map with both \<open>max_tokens\<close> and
  \<open>max_completion_tokens\<close> and with no field of the denylist is returned as it is, byte
  for byte: the output decodes to the same map, \<open>max_tokens\<close> still in it.
\<close>

theorem transformRequestBody_keeps_both:
  assumes "Unmarshal body = Some data"
    and "data ''max_tokens'' \<noteq> None" and "data ''max_completion_tokens'' \<noteq> None"
    and "\<forall>param \<in> set unsupportedParams. data param = None"
  shows "transformRequestBody Unmarshal Marshal body = body
     \<and> Unmarshal (transformRequestBody Unmarshal Marshal body) = Some data"
proof -
  from assms have "\<not> snd (transform_data data)"
    by (simp add: transform_data_snd)
  with assms(1) have "transformRequestBody Unmarshal Marshal body = body"
    by (simp add: transformRequestBody_cases)
  with assms(1) show ?thesis by simp
qed

theorem transformRequestBody_keeps_both_witness:
  "example_Unmarshal example_both = Some [''max_tokens'' \<mapsto> 5, ''max_completion_tokens'' \<mapsto> 7]
   \<and> [''max_tokens'' \<mapsto> 5::nat, ''max_completion_tokens'' \<mapsto> 7] ''max_tokens'' \<noteq> None
   \<and> [''max_tokens'' \<mapsto> 5::nat, ''max_completion_tokens'' \<mapsto> 7] ''max_completion_tokens'' \<noteq> None
   \<and> [''max_tokens'' \<mapsto> 5::nat, ''max_completion_tokens'' \<mapsto> 7] ''chat_template_kwargs'' = None
   \<and> [''max_tokens'' \<mapsto> 5::nat, ''max_completion_tokens'' \<mapsto> 7] ''enable_thinking'' = None
   \<and> transformRequestBody example_Unmarshal example_Marshal example_both = example_both
   \<and> example_Unmarshal (transformRequestBody example_Unmarshal example_Marshal example_both)
       = Some [''max_tokens'' \<mapsto> 5, ''max_completion_tokens'' \<mapsto> 7]"
proof -
  let ?data = "[''max_tokens'' \<mapsto> 5::nat, ''max_completion_tokens'' \<mapsto> 7]"
  have h1: "example_Unmarshal example_both = Some ?data"
    using example_bodies_differ by (simp add: example_Unmarshal_def)
  have h2: "?data ''max_tokens'' \<noteq> None" and h3: "?data ''max_completion_tokens'' \<noteq> None"
    by simp_all
  have h4: "\<forall>param \<in> set unsupportedParams. ?data param = None"
    by (simp add: unsupportedParams_def)
  have h5: "?data ''chat_template_kwargs'' = None" "?data ''enable_thinking'' = None"
    by simp_all
  from transformRequestBody_keeps_both[where Unmarshal = example_Unmarshal and Marshal = example_Marshal
      and body = example_both and data = ?data, OF h1 h2 h3 h4] h1 h2 h3 h5
  show ?thesis
    by blast
qed

section \<open>Health state: \<open>MarkHealthy\<close>, \<open>MarkUnhealthy\<close> and the recovery sweep\<close>

lemma Mark_frame:
  "balancers (MarkHealthy model b t lb) = balancers lb"
  "balancers (MarkUnhealthy model b t lb) = balancers lb"
  "length (heap (MarkHealthy model b t lb)) = length (heap lb)"
  "length (heap (MarkUnhealthy model b t lb)) = length (heap lb)"
  "r \<noteq> b \<Longrightarrow> heap (MarkHealthy model b t lb) ! r = heap lb ! r"
  "r \<noteq> b \<Longrightarrow> heap (MarkUnhealthy model b t lb) ! r = heap lb ! r"
  by (auto simp: MarkHealthy_def MarkUnhealthy_def split: option.splits)

lemma Mark_effect:
  assumes "map_of (balancers lb) model \<noteq> None" and "b < length (heap lb)"
  shows "heap (MarkHealthy model b t lb) ! b =
           (heap lb ! b)\<lparr>Healthy := True, LastChecked := t, FailCount := 0\<rparr>"
    and "heap (MarkUnhealthy model b t lb) ! b =
           (heap lb ! b)\<lparr>Healthy := False, LastChecked := t,
                         FailCount := FailCount (heap lb ! b) + 1\<rparr>"
  using assms by (auto simp: MarkHealthy_def MarkUnhealthy_def)

lemma GetNext_heap: "heap (snd (GetNext model lb)) = heap lb"
  by (simp add: GetNext_def Let_def split: option.splits prod.splits)

lemma GetAllBackends_state: "snd (GetAllBackends model lb) = lb"
  by (simp add: GetAllBackends_def Let_def split: option.splits)

text \<open>Looking twice at a backend with the same clock value changes nothing more, so a
  sweep over all pools does to every listed object what \<open>recover\<close> does once.\<close>

lemma recover_idem: "recover t (recover t b) = recover t b"
  by (simp add: recover_def)

lemma recover_fields:
  "Healthy (recover t b) = (Healthy b \<or> t - LastChecked b > defaultRecoveryTimeout)"
  "FailCount (recover t b) = FailCount b"
  "LastChecked (recover t b) = LastChecked b"
  "Backend (recover t b) = Backend b"
  by (auto simp: recover_def)

lemma sweep_refs:
  "length (fold (\<lambda>r h. h[r := recover (clock r) (h ! r)]) rs h) = length h
   \<and> (\<forall>r < length h. fold (\<lambda>r h. h[r := recover (clock r) (h ! r)]) rs h ! r =
         (if r \<in> set rs then recover (clock r) (h ! r) else h ! r))"
proof (induction rs arbitrary: h)
  case Nil
  show ?case by simp
next
  case (Cons a rs)
  let ?h = "h[a := recover (clock a) (h ! a)]"
  have "fold (\<lambda>r h. h[r := recover (clock r) (h ! r)]) rs ?h ! r =
         (if r \<in> set (a # rs) then recover (clock r) (h ! r) else h ! r)" if "r < length h" for r
  proof -
    from that Cons.IH[of ?h]
    have "fold (\<lambda>r h. h[r := recover (clock r) (h ! r)]) rs ?h ! r =
            (if r \<in> set rs then recover (clock r) (?h ! r) else ?h ! r)"
      by simp
    also have "\<dots> = (if r \<in> set (a # rs) then recover (clock r) (h ! r) else h ! r)"
      using that
      by (cases "a < length h") (auto simp: nth_list_update recover_idem list_update_beyond)
    finally show ?thesis .
  qed
  with Cons.IH[of ?h] show ?case
    by simp
qed

lemma sweep_balancer_nth:
  "length (sweep_balancer clock b h) = length h"
  "r < length h \<Longrightarrow> sweep_balancer clock b h ! r =
         (if r \<in> set (backends b) then recover (clock r) (h ! r) else h ! r)"
  using sweep_refs[of clock "backends b" h] by (simp_all add: sweep_balancer_def)

lemma sweep_all_nth:
  "length (fold (sweep_balancer clock) bals h) = length h
   \<and> (\<forall>r < length h. fold (sweep_balancer clock) bals h ! r =
         (if \<exists>b \<in> set bals. r \<in> set (backends b) then recover (clock r) (h ! r) else h ! r))"
proof (induction bals arbitrary: h)
  case Nil
  show ?case by simp
next
  case (Cons b bals)
  from Cons.IH[of "sweep_balancer clock b h"] show ?case
    by (auto simp: sweep_balancer_nth recover_idem)
qed

lemma StartHealthCheck_tick_nth:
  assumes "r < length (heap lb)"
  shows "heap (StartHealthCheck_tick clock lb) ! r =
     (if \<exists>b \<in> snd ` set (balancers lb). r \<in> set (backends b)
      then recover (clock r) (heap lb ! r) else heap lb ! r)"
  using assms sweep_all_nth[of clock "map snd (balancers lb)" "heap lb"]
  by (simp add: StartHealthCheck_tick_def)

text \<open>
  C7.  Let \<open>r\<close> be a backend of some pool.  After one sweep it is healthy exactly when
  it was healthy before or its \<open>LastChecked\<close> lies more than 30 seconds (in
  nanoseconds) before the time the sweep read for it; its \<open>FailCount\<close>,
  \<open>LastChecked\<close> and \<open>Backend\<close> are as before, and so are the pools and cursors.
  Of the other operations, \<open>MarkUnhealthy\<close> adds one to \<open>FailCount\<close>, \<open>MarkHealthy\<close>
  sets it to 0, and \<open>GetNext\<close> and \<open>GetAllBackends\<close> leave every status object as it
  is.
\<close>

theorem StartHealthCheck_tick_recovers:
  assumes "(model, balancer) \<in> set (balancers lb)" and "r \<in> set (backends balancer)"
    and "r < length (heap lb)"
  shows "Healthy (heap (StartHealthCheck_tick clock lb) ! r) =
           (Healthy (heap lb ! r) \<or> clock r - LastChecked (heap lb ! r) > 30 * 1000000000)
     \<and> FailCount (heap (StartHealthCheck_tick clock lb) ! r) = FailCount (heap lb ! r)
     \<and> LastChecked (heap (StartHealthCheck_tick clock lb) ! r) = LastChecked (heap lb ! r)
     \<and> Backend (heap (StartHealthCheck_tick clock lb) ! r) = Backend (heap lb ! r)
     \<and> balancers (StartHealthCheck_tick clock lb) = balancers lb
     \<and> FailCount (heap (MarkUnhealthy model r t lb) ! r) = FailCount (heap lb ! r) + 1
     \<and> FailCount (heap (MarkHealthy model r t lb) ! r) = 0
     \<and> heap (snd (GetNext model lb)) = heap lb
     \<and> heap (snd (GetAllBackends model lb)) = heap lb"
proof -
  from assms(1,2) have "\<exists>b \<in> snd ` set (balancers lb). r \<in> set (backends b)"
    by force
  with assms(3) have tick: "heap (StartHealthCheck_tick clock lb) ! r = recover (clock r) (heap lb ! r)"
    by (simp add: StartHealthCheck_tick_nth)
  from assms(1) have cfgd: "map_of (balancers lb) model \<noteq> None"
    by (metis map_of_eq_None_iff fst_conv image_eqI)
  have bal: "balancers (StartHealthCheck_tick clock lb) = balancers lb"
    by (simp add: StartHealthCheck_tick_def)
  show ?thesis
    by (simp add: tick bal recover_fields Mark_effect[OF cfgd assms(3)] GetNext_heap
          GetAllBackends_state defaultRecoveryTimeout_def Second_def)
qed

theorem StartHealthCheck_tick_recovers_witness:
  "(''m'', example_balancer) \<in> set (balancers after_failures)
   \<and> 0 \<in> set (backends example_balancer) \<and> 0 < length (heap after_failures)
   \<and> 1 \<in> set (backends example_balancer) \<and> 1 < length (heap after_failures)
   \<and> Healthy (heap (StartHealthCheck_tick sweep_clock after_failures) ! 0)
   \<and> FailCount (heap (StartHealthCheck_tick sweep_clock after_failures) ! 0) = 2
   \<and> \<not> Healthy (heap (StartHealthCheck_tick sweep_clock after_failures) ! 1)
   \<and> FailCount (heap (StartHealthCheck_tick sweep_clock after_failures) ! 1) = 1
   \<and> FailCount (heap (MarkUnhealthy ''m'' 0 (41 * Second) after_failures) ! 0) = 3
   \<and> FailCount (heap (MarkHealthy ''m'' 0 (41 * Second) after_failures) ! 0) = 0"
proof -
  have h1: "(''m'', example_balancer) \<in> set (balancers after_failures)"
    by (simp add: after_failures_def)
  have h2: "0 \<in> set (backends example_balancer)" and h2': "1 \<in> set (backends example_balancer)"
    by (simp_all add: example_balancer_def)
  have h3: "0 < length (heap after_failures)" and h3': "1 < length (heap after_failures)"
    by (simp_all add: after_failures_def)
  have a: "\<not> Healthy (heap after_failures ! 0)"
      "sweep_clock 0 - LastChecked (heap after_failures ! 0) > 30 * 1000000000"
      "FailCount (heap after_failures ! 0) = 2"
    by (simp_all add: after_failures_def example_status_def sweep_clock_def Second_def)
  have b: "\<not> Healthy (heap after_failures ! 1)"
      "\<not> sweep_clock 1 - LastChecked (heap after_failures ! 1) > 30 * 1000000000"
      "FailCount (heap after_failures ! 1) = 1"
    by (simp_all add: after_failures_def example_status_def sweep_clock_def Second_def)
  from StartHealthCheck_tick_recovers[OF h1 h2 h3, of sweep_clock "41 * Second"] a
  have A: "Healthy (heap (StartHealthCheck_tick sweep_clock after_failures) ! 0)"
      "FailCount (heap (StartHealthCheck_tick sweep_clock after_failures) ! 0) = 2"
      "FailCount (heap (MarkUnhealthy ''m'' 0 (41 * Second) after_failures) ! 0) = 3"
      "FailCount (heap (MarkHealthy ''m'' 0 (41 * Second) after_failures) ! 0) = 0"
    by simp_all
  from StartHealthCheck_tick_recovers[OF h1 h2' h3', of sweep_clock "41 * Second"] b
  have B: "\<not> Healthy (heap (StartHealthCheck_tick sweep_clock after_failures) ! 1)"
      "FailCount (heap (StartHealthCheck_tick sweep_clock after_failures) ! 1) = 1"
    by simp_all
  from h1 h2 h2' h3 h3' A B show ?thesis
    by blast
qed

section \<open>Dispatcher: the retry loop\<close>

text \<open>The loop, one iteration at a time.\<close>

lemma loop_exhausted:
  "\<not> int i < maxAttempts \<Longrightarrow>
     proxyWithModel_loop maxAttempts env model apiType bs i lastErr log lb =
       (case lastErr of
          None \<Rightarrow> (NilPanic, log, lb)
        | Some err \<Rightarrow>
            (JSON 503 [(''error'', ''all backends failed''), (''detail'', Error err)], log, lb))"
  by (subst proxyWithModel_loop.simps) simp

lemma loop_cancelled:
  "int i < maxAttempts \<Longrightarrow> ctx_done (env i) \<Longrightarrow>
     proxyWithModel_loop maxAttempts env model apiType bs i lastErr log lb = (Cancelled, log, lb)"
  by (subst proxyWithModel_loop.simps) simp

lemma loop_failed:
  assumes "int i < maxAttempts" and "\<not> ctx_done (env i)" and "attempt_err (env i) = Some err"
  shows "proxyWithModel_loop maxAttempts env model apiType bs i lastErr log lb =
     proxyWithModel_loop maxAttempts env model apiType bs (Suc i) (Some err)
       (log @ [(bs ! (i mod length bs),
                targetURL (Backend (heap lb ! (bs ! (i mod length bs)))) apiType)])
       (health_after model (bs ! (i mod length bs)) (env i) lb)"
  using assms
  by (subst proxyWithModel_loop.simps)
     (auto simp: attempt_err_def health_after_def Let_def split: result.splits if_splits)

lemma loop_answered:
  assumes "int i < maxAttempts" and "\<not> ctx_done (env i)" and "attempt_err (env i) = None"
  shows "\<exists>resp. result (env i) = Resp resp \<and> StatusCode resp < 500
     \<and> proxyWithModel_loop maxAttempts env model apiType bs i lastErr log lb =
         (relay resp,
          log @ [(bs ! (i mod length bs),
                  targetURL (Backend (heap lb ! (bs ! (i mod length bs)))) apiType)],
          MarkHealthy model (bs ! (i mod length bs)) (now (env i)) lb)"
  using assms
  by (subst proxyWithModel_loop.simps)
     (auto simp: attempt_err_def relay_def Let_def split: result.splits if_splits)


lemma health_after_frame:
  "balancers (health_after model b a lb) = balancers lb"
  "length (heap (health_after model b a lb)) = length (heap lb)"
  "r \<noteq> b \<Longrightarrow> heap (health_after model b a lb) ! r = heap lb ! r"
  by (auto simp: health_after_def Mark_frame split: result.splits)

lemma loop_log:
  assumes "proxyWithModel_loop M env model api bs i le log lb = (out, log', lb')" and "length log = i"
  shows "i \<le> length log' \<and> int (length log') \<le> max M (int i) \<and> take i log' = log
     \<and> (\<forall>j. i \<le> j \<and> j < length log' \<longrightarrow> fst (log' ! j) = bs ! (j mod length bs))"
  using assms
proof (induction "nat (M - int i)" arbitrary: i le log lb)
  case 0
  then have "\<not> int i < M" by simp
  with "0.prems" show ?case
    by (simp add: loop_exhausted split: option.splits)
next
  case (Suc d)
  then have lt: "int i < M" by simp
  let ?x = "(bs ! (i mod length bs), targetURL (Backend (heap lb ! (bs ! (i mod length bs)))) api)"
  show ?case
  proof (cases "ctx_done (env i)")
    case True
    with lt Suc.prems show ?thesis
      by (simp add: loop_cancelled)
  next
    case False
    show ?thesis
    proof (cases "attempt_err (env i)")
      case None
      from loop_answered[where env = env and i = i, OF lt False None, of model api bs le log lb] Suc.prems lt
      have "log' = log @ [?x]" by auto
      with Suc.prems(2) lt show ?thesis
        by (auto simp: nth_append less_Suc_eq)
    next
      case (Some err)
      let ?lb = "health_after model (bs ! (i mod length bs)) (env i) lb"
      from loop_failed[where env = env and i = i, OF lt False Some, of model api bs le log lb] Suc.prems(1)
      have rec: "proxyWithModel_loop M env model api bs (Suc i) (Some err) (log @ [?x]) ?lb = (out, log', lb')"
        by simp
      have d: "d = nat (M - int (Suc i))"
        using Suc.hyps(2) by simp
      have len: "length (log @ [?x]) = Suc i"
        using Suc.prems(2) by simp
      from Suc.hyps(1)[OF d rec len]
      have a: "Suc i \<le> length log'" and b: "int (length log') \<le> max M (int (Suc i))"
        and c: "take (Suc i) log' = log @ [?x]"
        and e: "\<forall>j. Suc i \<le> j \<and> j < length log' \<longrightarrow> fst (log' ! j) = bs ! (j mod length bs)"
        by blast+
      from c have "take i (take (Suc i) log') = take i (log @ [?x])"
        by simp
      with Suc.prems(2) have t: "take i log' = log"
        by simp
      from c a have "log' ! i = (log @ [?x]) ! i"
        by (metis lessI nth_take)
      with Suc.prems(2) have at_i: "fst (log' ! i) = bs ! (i mod length bs)"
        by (simp add: nth_append)
      have "fst (log' ! j) = bs ! (j mod length bs)" if "i \<le> j" "j < length log'" for j
        using that e at_i by (cases "j = i") auto
      with a b t lt show ?thesis
        by auto
    qed
  qed
qed

lemma loop_frame:
  assumes "proxyWithModel_loop M env model api bs i le log lb = (out, log', lb')"
  shows "balancers lb' = balancers lb \<and> length (heap lb') = length (heap lb)
     \<and> (\<forall>r. (\<forall>j. i \<le> j \<and> int j < M \<longrightarrow> bs ! (j mod length bs) \<noteq> r) \<longrightarrow> heap lb' ! r = heap lb ! r)"
  using assms
proof (induction "nat (M - int i)" arbitrary: i le log lb)
  case 0
  then have "\<not> int i < M" by simp
  with "0.prems" show ?case
    by (simp add: loop_exhausted split: option.splits)
next
  case (Suc d)
  then have lt: "int i < M" by simp
  let ?b = "bs ! (i mod length bs)"
  let ?x = "(?b, targetURL (Backend (heap lb ! ?b)) api)"
  show ?case
  proof (cases "ctx_done (env i)")
    case True
    with lt Suc.prems show ?thesis
      by (simp add: loop_cancelled)
  next
    case False
    show ?thesis
    proof (cases "attempt_err (env i)")
      case None
      from loop_answered[where env = env and i = i, OF lt False None, of model api bs le log lb] Suc.prems lt
      have "lb' = MarkHealthy model ?b (now (env i)) lb" by auto
      with lt show ?thesis
        by (auto simp: Mark_frame)
    next
      case (Some err)
      let ?lb = "health_after model ?b (env i) lb"
      from loop_failed[where env = env and i = i, OF lt False Some, of model api bs le log lb] Suc.prems(1)
      have rec: "proxyWithModel_loop M env model api bs (Suc i) (Some err) (log @ [?x]) ?lb = (out, log', lb')"
        by simp
      have d: "d = nat (M - int (Suc i))"
        using Suc.hyps(2) by simp
      from Suc.hyps(1)[OF d rec]
      have a: "balancers lb' = balancers ?lb" and b: "length (heap lb') = length (heap ?lb)"
        and c: "\<forall>r. (\<forall>j. Suc i \<le> j \<and> int j < M \<longrightarrow> bs ! (j mod length bs) \<noteq> r)
                  \<longrightarrow> heap lb' ! r = heap ?lb ! r"
        by blast+
      have "heap lb' ! r = heap lb ! r"
        if r: "\<forall>j. i \<le> j \<and> int j < M \<longrightarrow> bs ! (j mod length bs) \<noteq> r" for r
      proof -
        from r lt have "?b \<noteq> r" by blast
        moreover from r have "\<forall>j. Suc i \<le> j \<and> int j < M \<longrightarrow> bs ! (j mod length bs) \<noteq> r"
          by auto
        ultimately show ?thesis
          using c by (simp add: health_after_frame)
      qed
      with a b show ?thesis
        by (simp add: health_after_frame)
    qed
  qed
qed

lemma loop_all_fail:
  assumes "\<forall>j. i \<le> j \<and> int j < M \<longrightarrow> \<not> ctx_done (env j) \<and> attempt_err (env j) \<noteq> None"
  shows "fst (proxyWithModel_loop M env model api bs i le log lb) =
     (case (if int i < M then attempt_err (env (nat (M - 1))) else le) of
        None \<Rightarrow> NilPanic
      | Some err \<Rightarrow> JSON 503 [(''error'', ''all backends failed''), (''detail'', Error err)])"
  using assms
proof (induction "nat (M - int i)" arbitrary: i le log lb)
  case 0
  then have "\<not> int i < M" by simp
  then show ?case
    by (simp add: loop_exhausted split: option.splits)
next
  case (Suc d)
  then have lt: "int i < M" by simp
  with Suc.prems have nd: "\<not> ctx_done (env i)" and "attempt_err (env i) \<noteq> None"
    by auto
  then obtain err where err: "attempt_err (env i) = Some err"
    by auto
  have d: "d = nat (M - int (Suc i))"
    using Suc.hyps(2) by simp
  have rest: "\<forall>j. Suc i \<le> j \<and> int j < M \<longrightarrow> \<not> ctx_done (env j) \<and> attempt_err (env j) \<noteq> None"
    using Suc.prems by auto
  have last: "nat (M - 1) = i" if "\<not> int (Suc i) < M"
    using that lt by simp
  show ?case
    using Suc.hyps(1)[OF d rest] lt err last
    by (simp add: loop_failed[where env = env and i = i, OF lt nd err])
qed

lemma loop_made:
  assumes "proxyWithModel_loop M env model api bs i le log lb = (out, log', lb')"
    and "int i < M" and "\<not> ctx_done (env i)" and "length log = i"
  shows "i < length log'"
proof (cases "attempt_err (env i)")
  case None
  from loop_answered[where env = env and i = i, OF assms(2,3) None, of model api bs le log lb] assms(1,4)
  show ?thesis by auto
next
  case (Some err)
  let ?b = "bs ! (i mod length bs)"
  let ?x = "(?b, targetURL (Backend (heap lb ! ?b)) api)"
  from loop_failed[where env = env and i = i, OF assms(2,3) Some, of model api bs le log lb] assms(1)
  have "proxyWithModel_loop M env model api bs (Suc i) (Some err) (log @ [?x])
          (health_after model ?b (env i) lb) = (out, log', lb')"
    by simp
  from loop_log[OF this] assms(4) show ?thesis
    by simp
qed


lemma loop_all_fail_length:
  assumes "\<forall>j. i \<le> j \<and> int j < M \<longrightarrow> \<not> ctx_done (env j) \<and> attempt_err (env j) \<noteq> None"
  shows "length (fst (snd (proxyWithModel_loop M env model api bs i le log lb))) = length log + nat (M - int i)"
  using assms
proof (induction "nat (M - int i)" arbitrary: i le log lb)
  case 0
  then have "\<not> int i < M" by simp
  with 0 show ?case
    by (simp add: loop_exhausted split: option.splits)
next
  case (Suc d)
  then have lt: "int i < M" by simp
  with Suc.prems have nd: "\<not> ctx_done (env i)" and "attempt_err (env i) \<noteq> None"
    by auto
  then obtain err where err: "attempt_err (env i) = Some err"
    by auto
  have d: "d = nat (M - int (Suc i))"
    using Suc.hyps(2) by simp
  have rest: "\<forall>j. Suc i \<le> j \<and> int j < M \<longrightarrow> \<not> ctx_done (env j) \<and> attempt_err (env j) \<noteq> None"
    using Suc.prems by auto
  show ?case
    using Suc.hyps(1)[OF d rest] lt
    by (simp add: loop_failed[where env = env and i = i, OF lt nd err])
qed

lemma loop_effects:
  assumes run: "proxyWithModel_loop M env model api bs i le log lb = (out, log', lb')" and len: "length log = i"
    and cfgd: "map_of (balancers lb) model \<noteq> None"
    and valid: "\<forall>j. int j < M \<longrightarrow> bs ! (j mod length bs) < length (heap lb)"
    and inj: "\<forall>j j'. int j < M \<and> int j' < M \<and> j \<noteq> j'
                \<longrightarrow> bs ! (j mod length bs) \<noteq> bs ! (j' mod length bs)"
    and j: "i \<le> j" "j < length log'" and resp: "result (env j) = Resp resp"
  shows "(500 \<le> StatusCode resp \<longrightarrow>
            heap lb' ! (bs ! (j mod length bs)) =
              (heap lb ! (bs ! (j mod length bs)))
                \<lparr>Healthy := False, LastChecked := now (env j),
                 FailCount := FailCount (heap lb ! (bs ! (j mod length bs))) + 1\<rparr>
            \<and> (int (Suc j) < M \<and> \<not> ctx_done (env (Suc j)) \<longrightarrow> Suc j < length log'))
       \<and> (StatusCode resp < 500 \<longrightarrow>
            heap lb' ! (bs ! (j mod length bs)) =
              (heap lb ! (bs ! (j mod length bs)))
                \<lparr>Healthy := True, LastChecked := now (env j), FailCount := 0\<rparr>
            \<and> length log' = Suc j \<and> out = relay resp)"
  using run len cfgd valid j
proof (induction "nat (M - int i)" arbitrary: i le log lb)
  case 0
  then have "\<not> int i < M" by simp
  with "0.prems" show ?case
    by (simp add: loop_exhausted split: option.splits)
next
  case (Suc d)
  then have lt: "int i < M" by simp
  let ?b = "bs ! (i mod length bs)"
  let ?x = "(?b, targetURL (Backend (heap lb ! ?b)) api)"
  note run = Suc.prems(1) and len = Suc.prems(2) and cfgd = Suc.prems(3)
    and valid = Suc.prems(4) and ij = Suc.prems(5) and jl = Suc.prems(6)
  from valid lt have vb: "?b < length (heap lb)" by blast
  show ?case
  proof (cases "ctx_done (env i)")
    case True
    with lt run len ij jl show ?thesis
      by (simp add: loop_cancelled)
  next
    case False
    show ?thesis
    proof (cases "attempt_err (env i)")
      case None
      from loop_answered[where env = env and i = i, OF lt False None, of model api bs le log lb] run
      obtain r where r: "result (env i) = Resp r" "StatusCode r < 500"
        and res: "out = relay r" "log' = log @ [?x]" "lb' = MarkHealthy model ?b (now (env i)) lb"
        by auto
      from res(2) len ij jl have ji: "j = i" by simp
      with r resp have "resp = r" by simp
      with r res ji len show ?thesis
        by (simp add: Mark_effect[OF cfgd vb])
    next
      case (Some err)
      let ?lb = "health_after model ?b (env i) lb"
      from loop_failed[where env = env and i = i, OF lt False Some, of model api bs le log lb] run
      have rec: "proxyWithModel_loop M env model api bs (Suc i) (Some err) (log @ [?x]) ?lb = (out, log', lb')"
        by simp
      have d: "d = nat (M - int (Suc i))"
        using Suc.hyps(2) by simp
      have len': "length (log @ [?x]) = Suc i"
        using len by simp
      from loop_log[OF rec len'] lt have "int (length log') \<le> M"
        by simp
      with jl have jM: "int j < M" by simp
      show ?thesis
      proof (cases "j = i")
        case True
        with resp Some have ge: "500 \<le> StatusCode resp"
          by (auto simp: attempt_err_def split: if_splits)
        with resp True have "?lb = MarkUnhealthy model ?b (now (env i)) lb"
          by (simp add: health_after_def)
        then have h1: "heap ?lb ! ?b =
              (heap lb ! ?b)\<lparr>Healthy := False, LastChecked := now (env i),
                             FailCount := FailCount (heap lb ! ?b) + 1\<rparr>"
          by (simp add: Mark_effect[OF cfgd vb])
        have "\<forall>j'. Suc i \<le> j' \<and> int j' < M \<longrightarrow> bs ! (j' mod length bs) \<noteq> ?b"
          using inj lt by auto
        with loop_frame[OF rec] have "heap lb' ! ?b = heap ?lb ! ?b"
          by blast
        with h1 have eff: "heap lb' ! ?b =
              (heap lb ! ?b)\<lparr>Healthy := False, LastChecked := now (env i),
                             FailCount := FailCount (heap lb ! ?b) + 1\<rparr>"
          by simp
        have "Suc i < length log'" if "int (Suc i) < M" "\<not> ctx_done (env (Suc i))"
          using loop_made[OF rec that len'] .
        with eff ge True show ?thesis
          by simp
      next
        case False
        with ij have ij': "Suc i \<le> j" by simp
        have cfgd': "map_of (balancers ?lb) model \<noteq> None"
          using cfgd by (simp add: health_after_frame)
        have valid': "\<forall>j. int j < M \<longrightarrow> bs ! (j mod length bs) < length (heap ?lb)"
          using valid by (simp add: health_after_frame)
        from inj lt jM False have "bs ! (j mod length bs) \<noteq> ?b"
          by blast
        then have same: "heap ?lb ! (bs ! (j mod length bs)) = heap lb ! (bs ! (j mod length bs))"
          by (simp add: health_after_frame)
        from Suc.hyps(1)[OF d rec len' cfgd' valid' ij' jl] show ?thesis
          unfolding same .
      qed
    qed
  qed
qed

lemma proxyWithModel_unfold:
  assumes "map_of (balancers lb) model = Some balancer" and "backends balancer \<noteq> []"
  shows "proxyWithModel cfg env model body apiType lb =
     proxyWithModel_loop (min (MaxAttempts (Retry cfg)) (int (length (backends balancer)))) env model apiType
       (rotate (unat (current balancer) mod length (backends balancer)) (backends balancer))
       0 None [] lb"
proof -
  let ?bs = "backends balancer"
  let ?n = "length ?bs"
  let ?s = "unat (current balancer) mod ?n"
  have "map (\<lambda>i. ?bs ! ((?s + i) mod ?n)) [0..<?n] = rotate ?s ?bs"
    by (rule nth_equalityI) (simp_all add: nth_rotate)
  with assms have "GetAllBackends model lb = (rotate ?s ?bs, lb)"
    by (simp add: GetAllBackends_def Let_def)
  moreover have "(if MaxAttempts (Retry cfg) > int ?n then int ?n else MaxAttempts (Retry cfg))
                   = min (MaxAttempts (Retry cfg)) (int ?n)"
    by simp
  ultimately show ?thesis
    using assms(2) by (simp add: proxyWithModel_def Let_def del: of_nat_min)
qed


section \<open>Initialization\<close>

text \<open>\<open>Init\<close> allocates the status objects of a pool one after the other at the end of
  the heap, so a pool's addresses are distinct and valid.\<close>

lemma new_statuses_eq:
  "new_statuses bs h = ([length h ..< length h + length bs], h @ map new_status bs)"
proof (induction bs arbitrary: h)
  case Nil
  show ?case by simp
next
  case (Cons b bs)
  have "[length h ..< length h + length (b # bs)] = length h # [Suc (length h) ..< Suc (length h) + length bs]"
    by (subst upt_conv_Cons) simp_all
  then show ?case
    by (simp add: Cons.IH)
qed

lemma Init_model_eq:
  "Init_model e lb =
     \<lparr>balancers = AList.update (fst e)
        \<lparr>backends = [length (heap lb) ..< length (heap lb) + length (Backends (snd e))], current = 0\<rparr>
        (balancers lb),
      heap = heap lb @ map new_status (Backends (snd e))\<rparr>"
  by (simp add: Init_model_def new_statuses_eq)

lemma Init_models_other:
  "model \<notin> fst ` set ms \<Longrightarrow>
     map_of (balancers (fold Init_model ms lb)) model = map_of (balancers lb) model"
proof (induction ms arbitrary: lb)
  case Nil
  show ?case by simp
next
  case (Cons e ms)
  then have "model \<noteq> fst e" "model \<notin> fst ` set ms"
    by auto
  with Cons.IH[of "Init_model e lb"] show ?case
    by (simp add: Init_model_eq update_conv')
qed

lemma Init_models_heap_grows:
  "length (heap lb) \<le> length (heap (fold Init_model ms lb))"
proof (induction ms arbitrary: lb)
  case Nil
  show ?case by simp
next
  case (Cons e ms)
  have "length (heap lb) \<le> length (heap (Init_model e lb))"
    by (simp add: Init_model_eq)
  also have "\<dots> \<le> length (heap (fold Init_model ms (Init_model e lb)))"
    by (rule Cons.IH)
  finally show ?case by simp
qed

lemma Init_models_pool:
  assumes "(model, mc) \<in> set ms" and "distinct (map fst ms)"
  shows "\<exists>rs. map_of (balancers (fold Init_model ms lb)) model = Some \<lparr>backends = rs, current = 0\<rparr>
     \<and> length rs = length (Backends mc) \<and> distinct rs
     \<and> (\<forall>r \<in> set rs. r < length (heap (fold Init_model ms lb)))"
  using assms
proof (induction ms arbitrary: lb)
  case Nil
  then show ?case by simp
next
  case (Cons e ms)
  show ?case
  proof (cases "(model, mc) \<in> set ms")
    case True
    with Cons.prems have "distinct (map fst ms)" by simp
    from Cons.IH[OF True this, of "Init_model e lb"] show ?thesis by simp
  next
    case False
    with Cons.prems(1) have e: "e = (model, mc)"
      by simp
    with Cons.prems(2) have other: "model \<notin> fst ` set ms"
      by simp
    note len = Init_models_heap_grows
    let ?rs = "[length (heap lb) ..< length (heap lb) + length (Backends mc)]"
    have "map_of (balancers (fold Init_model (e # ms) lb)) model = Some \<lparr>backends = ?rs, current = 0\<rparr>"
      using Init_models_other[OF other, of "Init_model e lb"]
      by (simp add: e Init_model_eq update_conv')
    moreover have "\<forall>r \<in> set ?rs. r < length (heap (fold Init_model (e # ms) lb))"
      using len[of "Init_model e lb" ms] by (auto simp: e Init_model_eq)
    ultimately show ?thesis
      by (intro exI[of _ ?rs]) simp
  qed
qed

lemma proxyWithModel_no_backends:
  assumes "map_of (balancers lb) model = Some balancer" and "backends balancer = []"
  shows "proxyWithModel cfg env model body apiType lb =
           (JSON 503 [(''error'', ''no backends available'')], [], lb)"
  using assms by (simp add: proxyWithModel_def GetAllBackends_def)

text \<open>
  C2, as the code has it.  \<open>Init\<close> has no way to reject a configuration: for a model
  configured with zero backends it stores an empty pool.  The model then counts as
  configured, \<open>GetNext\<close> returns nil and \<open>GetAllBackends\<close> the empty list for it, and
  every request for it is answered with 503 "no backends available", with no attempt
  made and the load balancer left as it was.
\<close>

theorem Init_accepts_empty_pool:
  assumes "(model, mc) \<in> set (Models cfg)" and "Backends mc = []"
    and "distinct (map fst (Models cfg))"
  shows "HasModel model (Init cfg lb)
     \<and> fst (GetNext model (Init cfg lb)) = None
     \<and> fst (GetAllBackends model (Init cfg lb)) = []
     \<and> proxyWithModel cfg env model body apiType (Init cfg lb) =
          (JSON 503 [(''error'', ''no backends available'')], [], Init cfg lb)"
proof -
  from Init_models_pool[OF assms(1,3), of lb] assms(2)
  have pool: "map_of (balancers (Init cfg lb)) model = Some \<lparr>backends = [], current = 0\<rparr>"
    by (auto simp: Init_def)
  then have "HasModel model (Init cfg lb)"
    by (simp add: HasModel_def)
  moreover from pool have "fst (GetNext model (Init cfg lb)) = None"
    by (simp add: GetNext_def)
  moreover from pool have "fst (GetAllBackends model (Init cfg lb)) = []"
    by (simp add: GetAllBackends_def)
  moreover from pool have "proxyWithModel cfg env model body apiType (Init cfg lb) =
          (JSON 503 [(''error'', ''no backends available'')], [], Init cfg lb)"
    by (simp add: proxyWithModel_no_backends)
  ultimately show ?thesis by blast
qed

theorem Init_accepts_empty_pool_witness:
  "(''m'', \<lparr>Backends = []\<rparr>) \<in> set (Models empty_pool_config)
   \<and> Backends \<lparr>Backends = []\<rparr> = []
   \<and> distinct (map fst (Models empty_pool_config))
   \<and> HasModel ''m'' (Init empty_pool_config all_unhealthy)
   \<and> fst (GetNext ''m'' (Init empty_pool_config all_unhealthy)) = None
   \<and> fst (GetAllBackends ''m'' (Init empty_pool_config all_unhealthy)) = []
   \<and> proxyWithModel empty_pool_config fail_then_answer ''m'' example_body ''embeddings''
        (Init empty_pool_config all_unhealthy) =
          (JSON 503 [(''error'', ''no backends available'')], [], Init empty_pool_config all_unhealthy)"
proof -
  have h1: "(''m'', \<lparr>Backends = []\<rparr>) \<in> set (Models empty_pool_config)"
    by (simp add: empty_pool_config_def)
  have h2: "Backends \<lparr>Backends = []\<rparr> = []"
    by simp
  have h3: "distinct (map fst (Models empty_pool_config))"
    by (simp add: empty_pool_config_def)
  from Init_accepts_empty_pool[OF h1 h2 h3] h1 h2 h3 show ?thesis
    by blast
qed

text \<open>
  C2 as stated fails.  \<open>Init\<close> turns the configuration whose model \<open>m\<close> has no backend
  into a load balancer with an empty pool for \<open>m\<close>; \<open>HasModel\<close> holds for \<open>m\<close>, and a
  request for \<open>m\<close> is answered with 503 "no backends available".
\<close>

theorem Init_counterexample:
  "Init empty_pool_config GetInstance =
     \<lparr>balancers = [(''m'', \<lparr>backends = [], current = 0\<rparr>)], heap = []\<rparr>
   \<and> HasModel ''m'' (Init empty_pool_config GetInstance)
   \<and> fst (proxyWithModel empty_pool_config always_failing ''m'' example_body ''chat/completions''
           (Init empty_pool_config GetInstance))
       = JSON 503 [(''error'', ''no backends available'')]"
  by code_simp

text \<open>
  What \<open>Init\<close> guarantees for every configured model, and that no later operation
  changes a pool or the number of status objects: only cursors and the fields of the
  status objects change.
\<close>

lemma Init_pool:
  assumes "(model, mc) \<in> set (Models cfg)" and "distinct (map fst (Models cfg))"
  shows "\<exists>balancer. map_of (balancers (Init cfg lb)) model = Some balancer
     \<and> length (backends balancer) = length (Backends mc) \<and> current balancer = 0
     \<and> distinct (backends balancer)
     \<and> (\<forall>r \<in> set (backends balancer). r < length (heap (Init cfg lb)))"
  using Init_models_pool[OF assms, of lb] by (auto simp: Init_def)

lemma GetNext_keeps_pools:
  "map_option backends (map_of (balancers (snd (GetNext model lb))) m)
     = map_option backends (map_of (balancers lb) m)"
  by (auto simp: GetNext_def Let_def update_conv' split: option.splits prod.splits)

lemma StartHealthCheck_tick_keeps_pools:
  "balancers (StartHealthCheck_tick clock lb) = balancers lb
   \<and> length (heap (StartHealthCheck_tick clock lb)) = length (heap lb)"
  using sweep_all_nth[of clock "map snd (balancers lb)" "heap lb"]
  by (simp add: StartHealthCheck_tick_def)

lemma proxyWithModel_keeps_pools:
  assumes "proxyWithModel cfg env model body apiType lb = (out, log, lb')"
  shows "balancers lb' = balancers lb \<and> length (heap lb') = length (heap lb)"
proof (cases "map_of (balancers lb) model")
  case None
  with assms show ?thesis
    by (simp add: proxyWithModel_def GetAllBackends_def)
next
  case (Some balancer)
  show ?thesis
  proof (cases "backends balancer = []")
    case True
    with Some assms show ?thesis
      by (simp add: proxyWithModel_no_backends)
  next
    case False
    from assms loop_frame show ?thesis
      unfolding proxyWithModel_unfold[OF Some False] by blast
  qed
qed

section \<open>Dispatcher: what one request does\<close>

text \<open>
  C4.  Take a request for a configured model whose pool has distinct, valid addresses,
  and an attempt \<open>j\<close> of it that got a response.  The attempt went to entry \<open>j\<close> of the
  failover sequence.  If the status is 500 or more, the backend is unhealthy afterwards
  (marked at the time of the attempt, its fail count one higher), every other attempt of
  the request went to a different backend, and the loop goes on: when the attempt bound
  allows another attempt and the caller has not cancelled, attempt \<open>j + 1\<close> is made.  If
  the status is below 500, the backend is healthy afterwards with fail count 0, the
  attempt is the last one, and the response is handed to the stream relay or the
  buffered relay.
\<close>

theorem proxyWithModel_status_handling:
  assumes cfgd: "map_of (balancers lb) model = Some balancer"
    and dist: "distinct (backends balancer)"
    and valid: "\<forall>r \<in> set (backends balancer). r < length (heap lb)"
    and run: "proxyWithModel cfg env model body apiType lb = (out, log, lb')"
    and att: "j < length log" and resp: "result (env j) = Resp resp"
  shows "fst (log ! j) = fst (GetAllBackends model lb) ! j
     \<and> (500 \<le> StatusCode resp \<longrightarrow>
          heap lb' ! fst (log ! j) =
            (heap lb ! fst (log ! j))
              \<lparr>Healthy := False, LastChecked := now (env j),
               FailCount := FailCount (heap lb ! fst (log ! j)) + 1\<rparr>
          \<and> (\<forall>j'. j' < length log \<and> j' \<noteq> j \<longrightarrow> fst (log ! j') \<noteq> fst (log ! j))
          \<and> (int (Suc j) < MaxAttempts (Retry cfg) \<and> Suc j < length (backends balancer)
               \<and> \<not> ctx_done (env (Suc j)) \<longrightarrow> Suc j < length log))
     \<and> (StatusCode resp < 500 \<longrightarrow>
          heap lb' ! fst (log ! j) =
            (heap lb ! fst (log ! j))\<lparr>Healthy := True, LastChecked := now (env j), FailCount := 0\<rparr>
          \<and> length log = Suc j
          \<and> out = (if Contains (ContentType resp) ''text/event-stream''
                   then handleStreamResponse resp else handleNormalResponse resp))"
proof -
  let ?pool = "backends balancer"
  let ?n = "length ?pool"
  let ?bs = "rotate (unat (current balancer) mod ?n) ?pool"
  let ?M = "min (MaxAttempts (Retry cfg)) (int ?n)"
  have ne: "?pool \<noteq> []"
  proof
    assume "?pool = []"
    with cfgd run have "log = []"
      by (simp add: proxyWithModel_def GetAllBackends_def)
    with att show False by simp
  qed
  from run have loop: "proxyWithModel_loop ?M env model apiType ?bs 0 None [] lb = (out, log, lb')"
    by (simp add: proxyWithModel_unfold[OF cfgd ne] del: of_nat_min)
  have all: "GetAllBackends model lb = (?bs, lb)"
    using cfgd ne GetAllBackends_rotate by blast
  have lenbs: "length ?bs = ?n" by simp
  from loop_log[OF loop] have lenlog: "int (length log) \<le> max ?M 0"
    and at: "\<forall>j. j < length log \<longrightarrow> fst (log ! j) = ?bs ! (j mod ?n)"
    by (simp_all del: of_nat_min)
  from lenlog have "length log \<le> ?n"
    by arith
  then have small: "k < ?n" if "k < length log" for k
    using that by simp
  have at': "fst (log ! k) = ?bs ! k" if "k < length log" for k
    using that at small by simp
  have "distinct ?bs" using dist by simp
  then have ne_idx: "?bs ! k \<noteq> ?bs ! k'" if "k < ?n" "k' < ?n" "k \<noteq> k'" for k k'
    using that by (simp add: nth_eq_iff_index_eq)
  have cf: "map_of (balancers lb) model \<noteq> None"
    using cfgd by simp
  have va: "\<forall>k. int k < ?M \<longrightarrow> ?bs ! (k mod length ?bs) < length (heap lb)"
  proof (intro allI impI)
    fix k assume "int k < ?M"
    then have "k < ?n" by simp
    then have "?bs ! k \<in> set ?bs" by (intro nth_mem) simp
    then have "?bs ! k \<in> set ?pool" by simp
    with valid \<open>k < ?n\<close> show "?bs ! (k mod length ?bs) < length (heap lb)"
      by simp
  qed
  have inj: "\<forall>k k'. int k < ?M \<and> int k' < ?M \<and> k \<noteq> k'
               \<longrightarrow> ?bs ! (k mod length ?bs) \<noteq> ?bs ! (k' mod length ?bs)"
  proof (intro allI impI)
    fix k k' assume "int k < ?M \<and> int k' < ?M \<and> k \<noteq> k'"
    then have "k < ?n" "k' < ?n" "k \<noteq> k'" by simp_all
    with ne_idx[of k k'] show "?bs ! (k mod length ?bs) \<noteq> ?bs ! (k' mod length ?bs)"
      by simp
  qed
  have jmod: "?bs ! (j mod length ?bs) = fst (log ! j)"
    using att at' small by simp
  note eff = loop_effects[OF loop _ cf va inj _ att resp, unfolded jmod relay_def]
  have differ: "fst (log ! j') \<noteq> fst (log ! j)" if "j' < length log" "j' \<noteq> j" for j'
    using that att at' small ne_idx by simp
  have cont: "Suc j < length log"
    if "int (Suc j) < MaxAttempts (Retry cfg)" "Suc j < ?n" "\<not> ctx_done (env (Suc j))"
       "500 \<le> StatusCode resp"
    using that eff by simp
  have first: "fst (log ! j) = fst (GetAllBackends model lb) ! j"
    using att at' all by simp
  from eff differ cont first show ?thesis
    by simp
qed

theorem proxyWithModel_status_handling_witness:
  "map_of (balancers (Init example_config GetInstance)) ''m'' = Some \<lparr>backends = [0, 1, 2], current = 0\<rparr>
   \<and> distinct (backends \<lparr>backends = [0, 1, 2], current = 0\<rparr>)
   \<and> length (heap (Init example_config GetInstance)) = 3
   \<and> length (fst (snd (proxyWithModel example_config fail_then_answer ''m'' example_body
         ''chat/completions'' (Init example_config GetInstance)))) = 2
   \<and> result (fail_then_answer 0) = Resp (status_response 500)
   \<and> result (fail_then_answer 1) = Resp (status_response 200)
   \<and> map fst (fst (snd (proxyWithModel example_config fail_then_answer ''m'' example_body
         ''chat/completions'' (Init example_config GetInstance)))) = [0, 1]
   \<and> \<not> Healthy (heap (snd (snd (proxyWithModel example_config fail_then_answer ''m''
         example_body ''chat/completions'' (Init example_config GetInstance)))) ! 0)
   \<and> Healthy (heap (snd (snd (proxyWithModel example_config fail_then_answer ''m''
         example_body ''chat/completions'' (Init example_config GetInstance)))) ! 1)
   \<and> fst (proxyWithModel example_config fail_then_answer ''m'' example_body
         ''chat/completions'' (Init example_config GetInstance))
       = handleNormalResponse (status_response 200)"
proof -
  let ?lb = "Init example_config GetInstance"
  let ?bal = "\<lparr>backends = [0, 1, 2], current = 0\<rparr>"
  let ?P = "proxyWithModel example_config fail_then_answer ''m'' example_body ''chat/completions'' ?lb"
  have cfgd: "map_of (balancers ?lb) ''m'' = Some ?bal"
    by code_simp
  have dist: "distinct (backends ?bal)"
    by simp
  have heap3: "length (heap ?lb) = 3"
    by code_simp
  then have valid: "\<forall>r \<in> set (backends ?bal). r < length (heap ?lb)"
    by simp
  have run: "?P = (fst ?P, fst (snd ?P), snd (snd ?P))"
    by simp
  have log: "map fst (fst (snd ?P)) = [0, 1]"
    by code_simp
  have len: "length (fst (snd ?P)) = 2"
    by code_simp
  have l0: "fst (fst (snd ?P) ! 0) = 0" and l1: "fst (fst (snd ?P) ! 1) = 1"
    by code_simp+
  have r0: "result (fail_then_answer 0) = Resp (status_response 500)"
    and r1: "result (fail_then_answer 1) = Resp (status_response 200)"
    by (simp_all add: fail_then_answer_def)
  have j0: "0 < length (fst (snd ?P))" and j1: "1 < length (fst (snd ?P))"
    using len by simp_all
  have s500: "500 \<le> StatusCode (status_response 500)"
    and s200: "StatusCode (status_response 200) < 500"
    and ct: "\<not> Contains (ContentType (status_response 200)) ''text/event-stream''"
    by (simp_all add: status_response_def)
  from proxyWithModel_status_handling[OF cfgd dist valid run j0 r0] s500
  have "heap (snd (snd ?P)) ! fst (fst (snd ?P) ! 0) =
          (heap ?lb ! fst (fst (snd ?P) ! 0))
            \<lparr>Healthy := False, LastChecked := now (fail_then_answer 0),
             FailCount := FailCount (heap ?lb ! fst (fst (snd ?P) ! 0)) + 1\<rparr>"
    by blast
  then have "\<not> Healthy (heap (snd (snd ?P)) ! fst (fst (snd ?P) ! 0))"
    by simp
  then have A: "\<not> Healthy (heap (snd (snd ?P)) ! 0)"
    unfolding l0 .
  from proxyWithModel_status_handling[OF cfgd dist valid run j1 r1] s200
  have "heap (snd (snd ?P)) ! fst (fst (snd ?P) ! 1) =
          (heap ?lb ! fst (fst (snd ?P) ! 1))
            \<lparr>Healthy := True, LastChecked := now (fail_then_answer 1), FailCount := 0\<rparr>"
    and C': "fst ?P = (if Contains (ContentType (status_response 200)) ''text/event-stream''
                   then handleStreamResponse (status_response 200)
                   else handleNormalResponse (status_response 200))"
    by blast+
  then have "Healthy (heap (snd (snd ?P)) ! fst (fst (snd ?P) ! 1))"
    by simp
  then have B: "Healthy (heap (snd (snd ?P)) ! 1)"
    unfolding l1 .
  from C' ct have C: "fst ?P = handleNormalResponse (status_response 200)"
    by simp
  from cfgd dist heap3 len r0 r1 log A B C show ?thesis
    by blast
qed

text \<open>
  The attempt bound.  A request for a model with a non-empty pool makes at most
  \<open>min(MaxAttempts, pool size)\<close> attempts (none when \<open>MaxAttempts\<close> is zero or
  negative).  When \<open>MaxAttempts\<close> is positive, the caller does not cancel and every
  attempt up to that bound fails, exactly that many attempts are made and the reply is
  503 "all backends failed" with the message of the last attempt's error as detail.
\<close>

theorem proxyWithModel_attempt_bound:
  assumes cfgd: "map_of (balancers lb) model = Some balancer" and ne: "backends balancer \<noteq> []"
    and run: "proxyWithModel cfg env model body apiType lb = (out, log, lb')"
  shows "length log \<le> nat (min (MaxAttempts (Retry cfg)) (int (length (backends balancer))))
     \<and> (0 < MaxAttempts (Retry cfg)
        \<and> (\<forall>j. int j < min (MaxAttempts (Retry cfg)) (int (length (backends balancer)))
               \<longrightarrow> \<not> ctx_done (env j) \<and> attempt_err (env j) \<noteq> None)
        \<longrightarrow> int (length log) = min (MaxAttempts (Retry cfg)) (int (length (backends balancer)))
            \<and> (\<exists>err. attempt_err (env (length log - 1)) = Some err
                  \<and> out = JSON 503 [(''error'', ''all backends failed''), (''detail'', Error err)]))"
proof -
  let ?pool = "backends balancer"
  let ?n = "length ?pool"
  let ?bs = "rotate (unat (current balancer) mod ?n) ?pool"
  let ?M = "min (MaxAttempts (Retry cfg)) (int ?n)"
  from run have loop: "proxyWithModel_loop ?M env model apiType ?bs 0 None [] lb = (out, log, lb')"
    by (simp add: proxyWithModel_unfold[OF cfgd ne] del: of_nat_min)
  from loop_log[OF loop] have "int (length log) \<le> max ?M 0"
    by (simp del: of_nat_min)
  then have bound: "length log \<le> nat ?M"
    by arith
  have exhausted: "int (length log) = ?M
            \<and> (\<exists>err. attempt_err (env (length log - 1)) = Some err
                  \<and> out = JSON 503 [(''error'', ''all backends failed''), (''detail'', Error err)])"
    if pos: "0 < MaxAttempts (Retry cfg)"
      and fail: "\<forall>j. int j < ?M \<longrightarrow> \<not> ctx_done (env j) \<and> attempt_err (env j) \<noteq> None"
  proof -
    from ne pos have M: "0 < ?M" by (simp del: of_nat_min)
    from fail have fail': "\<forall>j. 0 \<le> j \<and> int j < ?M \<longrightarrow> \<not> ctx_done (env j) \<and> attempt_err (env j) \<noteq> None"
      by blast
    from loop_all_fail_length[OF fail', of model apiType ?bs None "[]" lb] loop
    have len: "length log = nat ?M"
      by (simp del: of_nat_min)
    with M have len': "int (length log) = ?M" and last: "length log - 1 = nat (?M - 1)"
      by (simp_all del: of_nat_min)
    from M have "int (nat (?M - 1)) < ?M"
      by arith
    with fail have "attempt_err (env (nat (?M - 1))) \<noteq> None"
      by blast
    then obtain err where err: "attempt_err (env (nat (?M - 1))) = Some err"
      by blast
    from loop_all_fail[OF fail', of model apiType ?bs None "[]" lb] loop M err
    have "out = JSON 503 [(''error'', ''all backends failed''), (''detail'', Error err)]"
      by (simp del: of_nat_min)
    with err len' last show ?thesis
      by (simp del: of_nat_min)
  qed
  from bound exhausted show ?thesis
    by blast
qed

theorem proxyWithModel_attempt_bound_witness:
  "map_of (balancers (Init example_config GetInstance)) ''m'' = Some \<lparr>backends = [0, 1, 2], current = 0\<rparr>
   \<and> backends \<lparr>backends = [0, 1, 2], current = 0\<rparr> \<noteq> []
   \<and> 0 < MaxAttempts (Retry example_config)
   \<and> min (MaxAttempts (Retry example_config)) (int (length (backends \<lparr>backends = [0, 1, 2], current = 0\<rparr>))) = 3
   \<and> attempt_err (always_failing 2) = Some (GoError False ''backend returned status 502'')
   \<and> length (fst (snd (proxyWithModel example_config always_failing ''m'' example_body
         ''chat/completions'' (Init example_config GetInstance)))) = 3
   \<and> fst (proxyWithModel example_config always_failing ''m'' example_body
         ''chat/completions'' (Init example_config GetInstance))
       = JSON 503 [(''error'', ''all backends failed''),
                   (''detail'', ''backend returned status 502'')]"
proof -
  let ?lb = "Init example_config GetInstance"
  let ?bal = "\<lparr>backends = [0, 1, 2], current = 0\<rparr>"
  let ?P = "proxyWithModel example_config always_failing ''m'' example_body ''chat/completions'' ?lb"
  have cfgd: "map_of (balancers ?lb) ''m'' = Some ?bal"
    by code_simp
  have ne: "backends ?bal \<noteq> []"
    by simp
  have run: "?P = (fst ?P, fst (snd ?P), snd (snd ?P))"
    by simp
  have pos: "0 < MaxAttempts (Retry example_config)"
    by (simp add: example_config_def)
  have M: "min (MaxAttempts (Retry example_config)) (int (length (backends ?bal))) = 3"
    by (simp add: example_config_def)
  have fail: "\<forall>j. int j < min (MaxAttempts (Retry example_config)) (int (length (backends ?bal)))
               \<longrightarrow> \<not> ctx_done (always_failing j) \<and> attempt_err (always_failing j) \<noteq> None"
    by (simp add: always_failing_def attempt_err_def status_response_def)
  have e2: "attempt_err (always_failing 2) = Some (GoError False ''backend returned status 502'')"
    by code_simp
  from proxyWithModel_attempt_bound[OF cfgd ne run] pos fail
  have len: "int (length (fst (snd ?P))) = 3"
    and out: "\<exists>err. attempt_err (always_failing (length (fst (snd ?P)) - 1)) = Some err
                \<and> fst ?P = JSON 503 [(''error'', ''all backends failed''), (''detail'', Error err)]"
    unfolding M by blast+
  from len have len3: "length (fst (snd ?P)) = 3"
    by simp
  with out e2 have "fst ?P = JSON 503 [(''error'', ''all backends failed''),
                   (''detail'', ''backend returned status 502'')]"
    by auto
  with cfgd ne pos M e2 len3 show ?thesis
    by blast
qed

text \<open>
  When \<open>MaxAttempts\<close> is zero or negative the loop body never runs, \<open>lastErr\<close> is still
  nil after the loop, and the call \<open>lastErr.Error()\<close> panics.
\<close>

lemma proxyWithModel_no_attempt:
  assumes "map_of (balancers lb) model = Some balancer" and "backends balancer \<noteq> []"
    and "MaxAttempts (Retry cfg) \<le> 0"
  shows "proxyWithModel cfg env model body apiType lb = (NilPanic, [], lb)"
proof -
  from assms(3) have "\<not> int 0 < min (MaxAttempts (Retry cfg)) (int (length (backends balancer)))"
    by simp
  then show ?thesis
    unfolding proxyWithModel_unfold[OF assms(1,2)] by (simp add: loop_exhausted)
qed

text \<open>
  C6 fails on the code.  With \<open>max_attempts: 0\<close>, which \<open>config.Load\<close> accepts, a request
  for model \<open>m\<close> with its three backends makes no attempt; every attempt of the request
  (there is none) has failed, and instead of answering 503 the handler calls
  \<open>lastErr.Error()\<close> on the nil \<open>lastErr\<close> and panics.  The load balancer is left as it
  was.
\<close>

theorem zero_attempts_panics:
  "MaxAttempts (Retry zero_attempts_config) = 0
   \<and> fst (GetAllBackends ''m'' (Init zero_attempts_config GetInstance)) = [0, 1, 2]
   \<and> proxyWithModel zero_attempts_config always_failing ''m'' example_body ''chat/completions''
        (Init zero_attempts_config GetInstance)
       = (NilPanic, [], Init zero_attempts_config GetInstance)
   \<and> NilPanic \<noteq> JSON 503 [(''error'', ''all backends failed''),
                             (''detail'', ''backend returned status 500'')]"
  by code_simp

text \<open>
  C3 fails on the code.  The loop looks at the cancellation signal only before an
  attempt.  When the caller cancels while the outbound call is in flight, \<open>client.Do\<close>
  returns an error and the code calls \<open>MarkUnhealthy\<close> as for any other error: the
  request below ends without a reply at the next check, and backend \<open>A\<close> (address 0),
  healthy before with fail count 0, is unhealthy afterwards with fail count 1.
\<close>

theorem cancelled_in_flight_marks_unhealthy:
  "\<not> ctx_done (cancelled_in_flight 0)
   \<and> result (cancelled_in_flight 0) = DoErr (GoError True ''context canceled'')
   \<and> caller_cancelled (GoError True ''context canceled'')
   \<and> ctx_done (cancelled_in_flight 1)
   \<and> Healthy (heap (Init example_config GetInstance) ! 0)
   \<and> FailCount (heap (Init example_config GetInstance) ! 0) = 0
   \<and> fst (proxyWithModel example_config cancelled_in_flight ''m'' example_body ''chat/completions''
            (Init example_config GetInstance)) = Cancelled
   \<and> map fst (fst (snd (proxyWithModel example_config cancelled_in_flight ''m'' example_body
            ''chat/completions'' (Init example_config GetInstance)))) = [0]
   \<and> \<not> Healthy (heap (snd (snd (proxyWithModel example_config cancelled_in_flight ''m''
            example_body ''chat/completions'' (Init example_config GetInstance)))) ! 0)
   \<and> FailCount (heap (snd (snd (proxyWithModel example_config cancelled_in_flight ''m''
            example_body ''chat/completions'' (Init example_config GetInstance)))) ! 0) = 1"
  by code_simp


end
